theory Spec2Isabelle
  imports Main "HOL-Library.AList" "HOL-Library.Sublist"
begin

section \<open>Values, exceptions and the engine client\<close>

text \<open>
  The module \<^verbatim>\<open>dockermap/map/client.py\<close> drives a Docker client from container maps.
  Python values that travel through keyword arguments are modelled by \<open>pyval\<close>; a
  keyword-argument dictionary is an association list with distinct keys, kept in
  insertion order.
\<close>

datatype pyval = PNone | PBool bool | PInt int | PStr string | PList "pyval list"

text \<open>Python truthiness, as used by \<^verbatim>\<open>if x\<close>, \<^verbatim>\<open>not x\<close> and \<^verbatim>\<open>x or y\<close>.\<close>

fun truthy :: "pyval \<Rightarrow> bool" where
  "truthy PNone = False"
| "truthy (PBool b) = b"
| "truthy (PInt i) = (i \<noteq> 0)"
| "truthy (PStr s) = (s \<noteq> [])"
| "truthy (PList xs) = (xs \<noteq> [])"

type_synonym kwargs = "(string \<times> pyval) list"

text \<open>
  Exceptions. \<open>APIError code explanation\<close> is \<^verbatim>\<open>docker.errors.APIError\<close> with
  \<^verbatim>\<open>e.response.status_code\<close> and \<^verbatim>\<open>e.explanation\<close>; the others are the built-in
  exceptions the module raises itself or provokes from the interpreter.
\<close>

datatype exn =
    APIError int string
  | ValueError string
  | KeyError string
  | TypeError string
  | AttributeError string
  | OtherError string

text \<open>
  The calls the module makes on a client (\<^verbatim>\<open>DockerClientWrapper\<close>). Container
  arguments are values, because \<^verbatim>\<open>_run_and_dispose\<close> passes on whatever
  \<^verbatim>\<open>create_container(...)['Id']\<close> returned.
\<close>

datatype call =
    Containers
  | CreateContainer pyval "string option" kwargs
  | Start pyval kwargs
  | Stop pyval kwargs
  | RemoveContainer pyval kwargs
  | Wait pyval
  | GetImageTags
  | ImportImage string string
  | PushContainerLogs pyval
  | PushLog string "int option"

type_synonym event = "nat \<times> call"

text \<open>One record of \<^verbatim>\<open>client.containers(all=True)\<close>: the fields the module reads.\<close>

record container_info =
  Status :: string
  Names :: "string list"

text \<open>
  The engine behind the clients is a parameter: it answers a call of client \<open>cid\<close> as a
  function of all calls made so far, so that it may be any deterministic engine. A call
  either raises or returns; the values of \<^verbatim>\<open>start\<close>, \<^verbatim>\<open>stop\<close>, \<^verbatim>\<open>remove_container\<close>,
  \<^verbatim>\<open>wait\<close>, \<^verbatim>\<open>import_image\<close> and \<^verbatim>\<open>push_container_logs\<close> are never used by the module,
  so \<open>r_command\<close> only says whether they raise.
\<close>

record engine =
  r_containers :: "event list \<Rightarrow> nat \<Rightarrow> exn + container_info list"
  r_create_container :: "event list \<Rightarrow> nat \<Rightarrow> pyval \<Rightarrow> string option \<Rightarrow> kwargs \<Rightarrow> exn + kwargs"
  r_get_image_tags :: "event list \<Rightarrow> nat \<Rightarrow> exn + string list"
  r_command :: "event list \<Rightarrow> nat \<Rightarrow> call \<Rightarrow> exn option"

text \<open>
  The collaborators that are not part of this module: the engine, the naming function
  \<^verbatim>\<open>cname(map_name, container, instance=None)\<close> of the policy class,
  \<^verbatim>\<open>get_user_group\<close> of \<^verbatim>\<open>dockermap.shortcuts\<close>, and Python's \<^verbatim>\<open>str.format\<close>, applied
  to a template and its arguments.
\<close>

record env =
  engine :: engine
  cname :: "string option \<Rightarrow> string \<Rightarrow> string option \<Rightarrow> string"
  get_user_group :: "pyval \<Rightarrow> string"
  format :: "string \<Rightarrow> pyval list \<Rightarrow> string"

section \<open>Container maps, policy objects and the client object\<close>

text \<open>
  Modelled from the spec: the container map (\<^verbatim>\<open>dockermap.map.container.ContainerMap\<close>)
  is an iterable of (container name, configuration) pairs with a \<^verbatim>\<open>name\<close>; a configuration
  exposes \<^verbatim>\<open>attaches\<close>, \<^verbatim>\<open>persistent\<close> and \<^verbatim>\<open>instances\<close>.
\<close>

record container_config =
  attaches :: "string list"
  persistent :: bool
  instances :: "string list"

record container_map =
  name :: string
  containers :: "(string \<times> container_config) list"

text \<open>\<^verbatim>\<open>MapClient = namedtuple('MapClient', ('container_map', 'client'))\<close>; a client is
  identified by a number.\<close>

record map_client =
  container_map :: container_map
  client :: nat

text \<open>
  Modelled from the spec: a policy object (\<^verbatim>\<open>dockermap.map.policy\<close>) is constructed from
  an iterable of container maps and has a settable \<^verbatim>\<open>status\<close> attribute, unset (\<open>None\<close>)
  until the client assigns it.
\<close>

record policy_obj =
  policy_maps :: "container_map list"
  status :: "(string \<times> pyval) list option"

text \<open>
  The fields of \<^verbatim>\<open>MappingDockerClient\<close>, together with what its methods act on: the
  store of policy objects (\<open>self_policy\<close> is a reference into it, and \<open>policy_next\<close> is
  the next free reference, so it counts the objects constructed), the store of the
  dictionaries that actions carry as \<^verbatim>\<open>kwargs\<close> (an action holds a reference, so that
  aliasing is visible), and the calls made on the clients so far.
\<close>

record state =
  self_default_map :: "string option"
  self_maps :: "(string \<times> map_client) list"
  self_image_tags :: "(string \<times> string list) list"
  self_policy :: "nat option"
  policy_heap :: "nat \<Rightarrow> policy_obj"
  policy_next :: nat
  dict_heap :: "nat \<Rightarrow> kwargs"
  dict_next :: nat
  trace :: "event list"

section \<open>Exceptions and state\<close>

type_synonym 'a m = "state \<Rightarrow> (exn + 'a) \<times> state"

definition returnE :: "'a \<Rightarrow> 'a m" where
  "returnE x s = (Inr x, s)"

definition raiseE :: "exn \<Rightarrow> 'a m" where
  "raiseE e s = (Inl e, s)"

definition bindE :: "'a m \<Rightarrow> ('a \<Rightarrow> 'b m) \<Rightarrow> 'b m" where
  "bindE f g s = (case f s of (Inl e, s') \<Rightarrow> (Inl e, s') | (Inr x, s') \<Rightarrow> g x s')"

text \<open>\<^verbatim>\<open>try: body finally: fin\<close>: \<open>fin\<close> always runs; an exception of \<open>fin\<close> replaces the
  outcome of \<open>body\<close>.\<close>

definition finallyE :: "'a m \<Rightarrow> unit m \<Rightarrow> 'a m" where
  "finallyE body fin s =
     (case body s of (r, s') \<Rightarrow>
        (case fin s' of (Inl e, s'') \<Rightarrow> (Inl e, s'') | (Inr _, s'') \<Rightarrow> (r, s'')))"

definition record_call :: "nat \<Rightarrow> call \<Rightarrow> state \<Rightarrow> state" where
  "record_call cid c s = s\<lparr>trace := trace s @ [(cid, c)]\<rparr>"

definition call_command :: "env \<Rightarrow> nat \<Rightarrow> call \<Rightarrow> unit m" where
  "call_command E cid c s =
     ((case r_command (engine E) (trace s) cid c of Some e \<Rightarrow> Inl e | None \<Rightarrow> Inr ()),
      record_call cid c s)"

definition call_create_container :: "env \<Rightarrow> nat \<Rightarrow> pyval \<Rightarrow> string option \<Rightarrow> kwargs \<Rightarrow> kwargs m" where
  "call_create_container E cid img nm kw s =
     (r_create_container (engine E) (trace s) cid img nm kw,
      record_call cid (CreateContainer img nm kw) s)"

definition call_get_image_tags :: "env \<Rightarrow> nat \<Rightarrow> (string list) m" where
  "call_get_image_tags E cid s =
     (r_get_image_tags (engine E) (trace s) cid, record_call cid GetImageTags s)"

definition call_containers :: "env \<Rightarrow> nat \<Rightarrow> (container_info list) m" where
  "call_containers E cid s =
     (r_containers (engine E) (trace s) cid, record_call cid Containers s)"

text \<open>
  Modelled from the spec: \<^verbatim>\<open>push_log(message, level)\<close> hands a message to the caller's
  log sink; it makes no engine request and does not raise.
\<close>

definition push_log :: "nat \<Rightarrow> string \<Rightarrow> int option \<Rightarrow> unit m" where
  "push_log cid msg level s = (Inr (), record_call cid (PushLog msg level) s)"

text \<open>\<^verbatim>\<open>logging.ERROR\<close>.\<close>

definition logging_ERROR :: int where
  "logging_ERROR = 40"

section \<open>Dictionaries\<close>

text \<open>\<^verbatim>\<open>d.update(other)\<close>: every item of \<open>other\<close>, in order, is stored into \<open>d\<close>.\<close>

definition dict_update :: "('k \<times> 'v) list \<Rightarrow> ('k \<times> 'v) list \<Rightarrow> ('k \<times> 'v) list" where
  "dict_update d other = fold (\<lambda>(k, v) acc. AList.update k v acc) other d"

text \<open>\<^verbatim>\<open>dict(pairs)\<close>: a later pair overwrites an earlier one with the same key.\<close>

definition dict_of_pairs :: "('k \<times> 'v) list \<Rightarrow> ('k \<times> 'v) list" where
  "dict_of_pairs ps = dict_update [] ps"

section \<open>Status extraction\<close>

text \<open>
  \<^verbatim>\<open>EXITED_REGEX = 'Exited \((\d+)\)'\<close>, used through \<^verbatim>\<open>exited_pattern.match\<close>, which
  anchors the pattern at the start of the string. \<open>match_literal p s\<close> consumes the
  literal \<open>p\<close>; the group \<^verbatim>\<open>(\d+)\<close> is greedy and backtracks: it first takes the whole run
  of digits and then gives back one character at a time, never fewer than one, until the
  rest of the pattern matches. The result is group 1 of the match.
\<close>

fun match_literal :: "string \<Rightarrow> string \<Rightarrow> string option" where
  "match_literal [] s = Some s"
| "match_literal (p # ps) [] = None"
| "match_literal (p # ps) (c # cs) = (if p = c then match_literal ps cs else None)"

text \<open>Characters are 8-bit here, so \<^verbatim>\<open>\d\<close> is one of the digits 0 to 9.\<close>

definition is_digit :: "char \<Rightarrow> bool" where
  "is_digit c = (48 \<le> (of_char c :: nat) \<and> (of_char c :: nat) \<le> 57)"

definition exited_match :: "string \<Rightarrow> string option" where
  "exited_match s =
     (case match_literal ''Exited ('' s of
        None \<Rightarrow> None
      | Some r \<Rightarrow>
          map_option (\<lambda>k. take k r)
            (List.find (\<lambda>k. match_literal '')'' (drop k r) \<noteq> None)
               (rev [1 ..< Suc (length (takeWhile is_digit r))])))"

text \<open>\<^verbatim>\<open>int(digits)\<close> on a string of decimal digits.\<close>

definition int_of_digits :: "string \<Rightarrow> int" where
  "int_of_digits ds = foldl (\<lambda>a c. 10 * a + (int (of_char c) - 48)) 0 ds"

text \<open>The classification of one status string in \<^verbatim>\<open>_extract_status\<close> (lines 78 to 88).\<close>

definition status_value :: "string \<Rightarrow> pyval" where
  "status_value c_status =
     (if c_status = '''' then PBool False
      else if prefix ''Up'' c_status then PBool True
      else (case exited_match c_status of
              Some g \<Rightarrow> PInt (int_of_digits g)
            | None \<Rightarrow> PNone))"

text \<open>The pairs one container record yields: \<^verbatim>\<open>name[1:], cs\<close> for every name.\<close>

definition container_status :: "container_info \<Rightarrow> (string \<times> pyval) list" where
  "container_status container =
     map (\<lambda>nm. (drop 1 nm, status_value (Status container))) (Names container)"

fun extract_status :: "env \<Rightarrow> map_client list \<Rightarrow> ((string \<times> pyval) list) m" where
  "extract_status E [] = returnE []"
| "extract_status E (mc # mcs) =
     bindE (call_containers E (client mc)) (\<lambda>map_containers.
       bindE (extract_status E mcs) (\<lambda>rest.
         returnE (concat (map container_status map_containers) @ rest)))"

definition get_status :: "env \<Rightarrow> ((string \<times> pyval) list) m" where
  "get_status E s =
     bindE (extract_status E (map snd (self_maps s))) (\<lambda>ps. returnE (dict_of_pairs ps)) s"

text \<open>The decimal numeral of a natural number, used to state what a status string with
  exit code \<open>n\<close> looks like.\<close>

fun decimal :: "nat \<Rightarrow> string" where
  "decimal n = (if n < 10 then [char_of (48 + n)] else decimal (n div 10) @ [char_of (48 + n mod 10)])"

declare decimal.simps [simp del]

section \<open>Construction and client lookup\<close>

text \<open>
  The argument of \<^verbatim>\<open>__init__\<close>: one container map with its client, a list of
  (map, client) pairs, or anything else, of which only the text of its type matters (what
  \<^verbatim>\<open>'{0}'.format(type(container_maps))\<close> prints). Map names are strings, so the keys
  of \<^verbatim>\<open>_maps\<close> are strings.
\<close>

datatype maps_arg =
  SingleMap container_map nat | MapList "(container_map \<times> nat) list" | OtherArg string

definition empty_state :: state where
  "empty_state = \<lparr>self_default_map = None, self_maps = [], self_image_tags = [],
     self_policy = None, policy_heap = (\<lambda>_. \<lparr>policy_maps = [], status = None\<rparr>),
     policy_next = 0,
     dict_heap = (\<lambda>_. []), dict_next = 0, trace = []\<rparr>"

definition init :: "maps_arg \<Rightarrow> exn + state" where
  "init container_maps =
     (case container_maps of
        SingleMap c_map docker_client \<Rightarrow>
          Inr (empty_state\<lparr>self_default_map := Some (name c_map),
                 self_maps := [(name c_map, \<lparr>container_map = c_map, client = docker_client\<rparr>)]\<rparr>)
      | MapList ms \<Rightarrow>
          Inr (empty_state\<lparr>self_default_map := None,
                 self_maps := dict_of_pairs
                   (map (\<lambda>(c_map, cl). (name c_map, \<lparr>container_map = c_map, client = cl\<rparr>)) ms)\<rparr>)
      | OtherArg type_text \<Rightarrow>
          Inl (ValueError (''Unexpected type of container_maps argument: '' @ type_text)))"

text \<open>A map name argument is \<open>None\<close> or a string.\<close>

definition name_val :: "string option \<Rightarrow> pyval" where
  "name_val map_name = (case map_name of None \<Rightarrow> PNone | Some n \<Rightarrow> PStr n)"

text \<open>\<^verbatim>\<open>self._maps.get(map_name)\<close>: no key is \<open>None\<close>. A \<^verbatim>\<open>MapClient\<close> is a pair and
  so is never falsy.\<close>

definition maps_get :: "state \<Rightarrow> string option \<Rightarrow> map_client option" where
  "maps_get s map_name = (case map_name of None \<Rightarrow> None | Some n \<Rightarrow> map_of (self_maps s) n)"

definition get_client :: "env \<Rightarrow> string option \<Rightarrow> nat m" where
  "get_client E map_name s =
     (case maps_get s map_name of
        None \<Rightarrow> raiseE (ValueError (format E ''No map found with name '{0}'.'' [name_val map_name])) s
      | Some c_map \<Rightarrow> returnE (client c_map) s)"

section \<open>Image cache\<close>

definition store_image_tags :: "string option \<Rightarrow> string list \<Rightarrow> state \<Rightarrow> state" where
  "store_image_tags map_name tags s =
     (case map_name of
        Some n \<Rightarrow> s\<lparr>self_image_tags := AList.update n tags (self_image_tags s)\<rparr>
      | None \<Rightarrow> s)"

definition cached_tags :: "state \<Rightarrow> string option \<Rightarrow> string list option" where
  "cached_tags s map_name =
     (case map_name of None \<Rightarrow> None | Some n \<Rightarrow> map_of (self_image_tags s) n)"

definition get_image_tags :: "env \<Rightarrow> string option \<Rightarrow> bool \<Rightarrow> (string list) m" where
  "get_image_tags E map_name force s =
     (case (if \<not> force then cached_tags s map_name else None) of
        Some tags \<Rightarrow> returnE tags s
      | None \<Rightarrow>
          bindE (get_client E map_name) (\<lambda>cl.
            bindE (call_get_image_tags E cl) (\<lambda>tags s'.
              (Inr tags, store_image_tags map_name tags s'))) s)"

text \<open>\<^verbatim>\<open>s.partition(sep)\<close> for a one-character separator.\<close>

definition partition_sep :: "char \<Rightarrow> string \<Rightarrow> string \<times> string \<times> string" where
  "partition_sep c s =
     (let r = dropWhile (\<lambda>x. x \<noteq> c) s
      in if r = [] then (s, [], []) else (takeWhile (\<lambda>x. x \<noteq> c) s, [c], tl r))"

text \<open>
  \<^verbatim>\<open>_check_image\<close>. The first line rebinds \<^verbatim>\<open>image_name\<close> to the part before the colon
  (\<open>image_name'\<close> below), and that is what \<^verbatim>\<open>full_name = image_name\<close> reads afterwards.
  A value that is not a string has no \<^verbatim>\<open>partition\<close>.
\<close>

definition check_image :: "env \<Rightarrow> nat \<Rightarrow> string list \<Rightarrow> pyval \<Rightarrow> bool m" where
  "check_image E map_client' map_images img =
     (case img of
        PStr image_name \<Rightarrow>
          (case partition_sep CHR '':'' image_name of (image_name', _, tag) \<Rightarrow>
             (let full_name = (if tag \<noteq> [] then image_name' else image_name' @ '':'' @ ''latest'')
              in if full_name \<notin> set map_images
                 then bindE (call_command E map_client'
                               (ImportImage image_name' (if tag \<noteq> [] then tag else ''latest'')))
                        (\<lambda>_. returnE True)
                 else returnE False))
      | _ \<Rightarrow> raiseE (AttributeError ''partition''))"

fun check_images :: "env \<Rightarrow> nat \<Rightarrow> string list \<Rightarrow> pyval list \<Rightarrow> (bool list) m" where
  "check_images E cl map_images [] = returnE []"
| "check_images E cl map_images (img # imgs) =
     bindE (check_image E cl map_images img) (\<lambda>b.
       bindE (check_images E cl map_images imgs) (\<lambda>bs. returnE (b # bs)))"

definition ensure_images :: "env \<Rightarrow> string option \<Rightarrow> pyval list \<Rightarrow> unit m" where
  "ensure_images E map_name images =
     bindE (get_client E map_name) (\<lambda>map_client'.
       bindE (get_image_tags E map_name False) (\<lambda>map_images.
         bindE (check_images E map_client' map_images images) (\<lambda>new_images.
           if list_ex (\<lambda>b. b) new_images
           then bindE (get_image_tags E map_name True) (\<lambda>_. returnE ())
           else returnE ())))"

section \<open>Permission adjustment\<close>

definition run_and_dispose ::
  "env \<Rightarrow> nat \<Rightarrow> pyval \<Rightarrow> pyval \<Rightarrow> pyval \<Rightarrow> pyval \<Rightarrow> pyval \<Rightarrow> unit m" where
  "run_and_dispose E cl img entrypoint command usr volumes_from =
     bindE (call_create_container E cl img None
              [(''entrypoint'', entrypoint), (''command'', command), (''user'', usr)]) (\<lambda>r.
       case map_of r ''Id'' of
         None \<Rightarrow> raiseE (KeyError ''Id'')
       | Some tmp_container \<Rightarrow>
           finallyE
             (bindE (call_command E cl (Start tmp_container [(''volumes_from'', volumes_from)])) (\<lambda>_.
                bindE (call_command E cl (Wait tmp_container)) (\<lambda>_.
                  call_command E cl (PushContainerLogs tmp_container))))
             (call_command E cl (RemoveContainer tmp_container [])))"

definition adjust_permissions ::
  "env \<Rightarrow> nat \<Rightarrow> pyval \<Rightarrow> string \<Rightarrow> pyval \<Rightarrow> pyval \<Rightarrow> pyval \<Rightarrow> unit m" where
  "adjust_permissions E cl img container_name path usr permissions =
     (if \<not> truthy usr \<and> \<not> truthy permissions then returnE ()
      else
        bindE
          (if truthy usr
           then bindE (push_log cl (format E ''Adjusting user for container '{0}' to '{1}'.''
                         [PStr container_name, usr]) None) (\<lambda>_.
                  run_and_dispose E cl img PNone
                    (PList [PStr ''chown'', PStr ''-R'', PStr (get_user_group E usr), path]) (PStr ''root'')
                    (PList [PStr container_name]))
           else returnE ())
          (\<lambda>_.
             if truthy permissions
             then bindE (push_log cl (format E ''Adjusting permissions for container '{0}' to '{1}'.''
                           [PStr container_name, permissions]) None) (\<lambda>_.
                    run_and_dispose E cl img PNone
                      (PList [PStr ''chmod'', PStr ''-R'', permissions, path]) (PStr ''root'')
                      (PList [PStr container_name]))
             else returnE ()))"

section \<open>The policy object\<close>

text \<open>
  \<^verbatim>\<open>self._policy_class(mc.container_map for mc in self._maps.values())\<close> allocates a new
  policy object. An object is truthy, so \<^verbatim>\<open>not self._policy\<close> holds exactly when the
  field is still \<open>None\<close>.
\<close>

definition new_policy :: "state \<Rightarrow> state" where
  "new_policy s =
     s\<lparr>self_policy := Some (policy_next s),
       policy_heap := (policy_heap s)(policy_next s :=
          \<lparr>policy_maps = map (\<lambda>mc. container_map mc) (map snd (self_maps s)), status = None\<rparr>),
       policy_next := Suc (policy_next s)\<rparr>"

definition set_status :: "nat \<Rightarrow> (string \<times> pyval) list \<Rightarrow> state \<Rightarrow> state" where
  "set_status a st s =
     s\<lparr>policy_heap := (policy_heap s)(a := (policy_heap s a)\<lparr>status := Some st\<rparr>)\<rparr>"

definition get_policy :: "env \<Rightarrow> nat m" where
  "get_policy E s =
     bindE (get_status E) (\<lambda>st s'.
       case self_policy s' of
         None \<Rightarrow> raiseE (AttributeError ''status'') s'
       | Some a \<Rightarrow> (Inr a, set_status a st s'))
     (if self_policy s = None then new_policy s else s)"

section \<open>Running an action list\<close>

text \<open>
  Modelled from the spec: the action constants and the groups \<^verbatim>\<open>ACTIONS_CREATE\<close>,
  \<^verbatim>\<open>ACTIONS_START\<close>, \<^verbatim>\<open>ACTIONS_PREPARE\<close>, \<^verbatim>\<open>ACTIONS_STOP\<close> and \<^verbatim>\<open>ACTIONS_REMOVE\<close> of
  \<^verbatim>\<open>dockermap.map.policy\<close>: a closed set of kinds create, start, prepare, stop and
  remove; any other value is an unrecognized action.
\<close>

datatype action_kind =
    ACTION_CREATE | ACTION_START | ACTION_PREPARE | ACTION_STOP | ACTION_REMOVE
  | ACTION_OTHER string

definition ACTIONS_CREATE :: "action_kind list" where "ACTIONS_CREATE = [ACTION_CREATE]"
definition ACTIONS_START :: "action_kind list" where "ACTIONS_START = [ACTION_START]"
definition ACTIONS_PREPARE :: "action_kind list" where "ACTIONS_PREPARE = [ACTION_PREPARE]"
definition ACTIONS_STOP :: "action_kind list" where "ACTIONS_STOP = [ACTION_STOP]"
definition ACTIONS_REMOVE :: "action_kind list" where "ACTIONS_REMOVE = [ACTION_REMOVE]"

definition action_val :: "action_kind \<Rightarrow> pyval" where
  "action_val a =
     (case a of ACTION_CREATE \<Rightarrow> PStr ''create'' | ACTION_START \<Rightarrow> PStr ''start''
      | ACTION_PREPARE \<Rightarrow> PStr ''prepare'' | ACTION_STOP \<Rightarrow> PStr ''stop''
      | ACTION_REMOVE \<Rightarrow> PStr ''remove'' | ACTION_OTHER x \<Rightarrow> PStr x)"

text \<open>
  An action is the tuple (action, map name, container, kwargs). Its \<^verbatim>\<open>kwargs\<close> is \<open>None\<close>
  or a reference to a dictionary in the store.
\<close>

type_synonym action = "action_kind \<times> string option \<times> string \<times> nat option"

definition new_dict :: "kwargs \<Rightarrow> nat m" where
  "new_dict d s =
     (Inr (dict_next s),
      s\<lparr>dict_heap := (dict_heap s)(dict_next s := d), dict_next := Suc (dict_next s)\<rparr>)"

definition dict_update_at :: "nat \<Rightarrow> kwargs \<Rightarrow> unit m" where
  "dict_update_at a other s =
     (Inr (), s\<lparr>dict_heap := (dict_heap s)(a := dict_update (dict_heap s a) other)\<rparr>)"

text \<open>\<^verbatim>\<open>d.pop(key)\<close>: removes the key from the dictionary object itself.\<close>

definition dict_pop :: "nat \<Rightarrow> string \<Rightarrow> pyval m" where
  "dict_pop a key s =
     (case map_of (dict_heap s a) key of
        None \<Rightarrow> raiseE (KeyError key) s
      | Some v \<Rightarrow> (Inr v, s\<lparr>dict_heap := (dict_heap s)(a := AList.delete key (dict_heap s a))\<rparr>))"

text \<open>\<^verbatim>\<open>apply_kwargs.get(action)\<close>; the default \<^verbatim>\<open>apply_kwargs=None\<close> has no \<^verbatim>\<open>get\<close>.\<close>

definition apply_kwargs_get :: "(action_kind \<times> kwargs) list option \<Rightarrow> action_kind \<Rightarrow> (kwargs option) m" where
  "apply_kwargs_get apply_kwargs a =
     (case apply_kwargs of
        None \<Rightarrow> raiseE (AttributeError ''get'')
      | Some d \<Rightarrow> returnE (map_of d a))"

text \<open>Whether \<^verbatim>\<open>kwargs\<close> is truthy: not \<open>None\<close> and not an empty dictionary.\<close>

definition kwargs_truthy :: "state \<Rightarrow> nat option \<Rightarrow> bool" where
  "kwargs_truthy s kw = (case kw of None \<Rightarrow> False | Some a \<Rightarrow> dict_heap s a \<noteq> [])"

text \<open>
  Lines 151 to 156: the reference \<^verbatim>\<open>a_kwargs\<close>. With a non-empty override it is a new
  dictionary (a copy of \<^verbatim>\<open>kwargs\<close>, or \<^verbatim>\<open>{}\<close>), updated with the override; otherwise it
  is \<^verbatim>\<open>kwargs or {}\<close>, that is the action's own dictionary when that is not empty.
\<close>

definition merge_kwargs :: "kwargs option \<Rightarrow> nat option \<Rightarrow> nat m" where
  "merge_kwargs c_kwargs kw s =
     (case (case c_kwargs of None \<Rightarrow> None | Some c \<Rightarrow> if c \<noteq> [] then Some c else None) of
        Some c \<Rightarrow>
          bindE (new_dict (case kw of None \<Rightarrow> [] | Some a \<Rightarrow> if kwargs_truthy s kw then dict_heap s a else []))
            (\<lambda>a_kwargs. bindE (dict_update_at a_kwargs c) (\<lambda>_. returnE a_kwargs)) s
      | None \<Rightarrow>
          (case kw of
             None \<Rightarrow> new_dict [] s
           | Some a \<Rightarrow> if kwargs_truthy s kw then returnE a s else new_dict [] s))"

text \<open>
  \<^verbatim>\<open>_adjust_permissions(client, image, container, **a_kwargs)\<close>: the dictionary has to
  supply exactly \<^verbatim>\<open>path\<close>, \<^verbatim>\<open>user\<close> and \<^verbatim>\<open>permissions\<close>.
\<close>

definition bind_adjust_args :: "kwargs \<Rightarrow> (pyval \<times> pyval \<times> pyval) m" where
  "bind_adjust_args kw =
     (case (map_of kw ''path'', map_of kw ''user'', map_of kw ''permissions'') of
        (Some path, Some usr, Some permissions) \<Rightarrow>
          if list_all (\<lambda>k. k \<in> set [''path'', ''user'', ''permissions'']) (map fst kw)
          then returnE (path, usr, permissions)
          else raiseE (TypeError ''unexpected keyword argument'')
      | _ \<Rightarrow> raiseE (TypeError ''missing argument''))"

text \<open>
  The handler of lines 170 to 175 and 179 to 184:
  \<^verbatim>\<open>try: body except APIError as e: if e.response.status_code != 404: push_log(...);
  if raise_on_error: raise e\<close>. Only \<^verbatim>\<open>APIError\<close> is caught.
\<close>

definition except_api_error :: "env \<Rightarrow> nat \<Rightarrow> string \<Rightarrow> string \<Rightarrow> bool \<Rightarrow> unit m \<Rightarrow> unit m" where
  "except_api_error E cl template container raise_on_error body s =
     (case body s of
        (Inl (APIError status_code explanation), s') \<Rightarrow>
          if status_code \<noteq> 404
          then bindE (push_log cl (format E template [PStr container, PStr explanation])
                        (Some logging_ERROR))
                 (\<lambda>_. if raise_on_error then raiseE (APIError status_code explanation)
                      else returnE ()) s'
          else returnE () s'
      | (r, s') \<Rightarrow> (r, s'))"

text \<open>One iteration of the loop; the result is what the iteration yields.\<close>

definition run_action ::
  "env \<Rightarrow> (action_kind \<times> kwargs) list option \<Rightarrow> bool \<Rightarrow> action \<Rightarrow> (kwargs list) m" where
  "run_action E apply_kwargs raise_on_error act =
     (case act of (action, map_name, container, kw) \<Rightarrow>
        bindE (get_client E map_name) (\<lambda>cl.
        bindE (apply_kwargs_get apply_kwargs action) (\<lambda>c_kwargs.
        bindE (merge_kwargs c_kwargs kw) (\<lambda>a_kwargs.
          if action \<in> set ACTIONS_CREATE then
            bindE (dict_pop a_kwargs ''image'') (\<lambda>img.
            bindE (ensure_images E map_name [img]) (\<lambda>_.
            bindE (\<lambda>s. call_create_container E cl img (Some container) (dict_heap s a_kwargs) s)
              (\<lambda>r. returnE [r])))
          else if action \<in> set ACTIONS_START then
            bindE (\<lambda>s. call_command E cl (Start (PStr container) (dict_heap s a_kwargs)) s)
              (\<lambda>_. returnE [])
          else if action \<in> set ACTIONS_PREPARE then
            bindE (dict_pop a_kwargs ''image'') (\<lambda>img.
            bindE (call_command E cl (Wait (PStr container))) (\<lambda>_.
            bindE (\<lambda>s. bind_adjust_args (dict_heap s a_kwargs) s) (\<lambda>(path, usr, permissions).
            bindE (adjust_permissions E cl img container path usr permissions)
              (\<lambda>_. returnE []))))
          else if action \<in> set ACTIONS_STOP then
            bindE (except_api_error E cl ''Failed to stop container '{0}': {1}'' container raise_on_error
                     (\<lambda>s. call_command E cl (Stop (PStr container) (dict_heap s a_kwargs)) s))
              (\<lambda>_. returnE [])
          else if action \<in> set ACTIONS_REMOVE then
            bindE (except_api_error E cl ''Failed to remove container '{0}': {1}'' container raise_on_error
                     (\<lambda>s. call_command E cl (RemoveContainer (PStr container) (dict_heap s a_kwargs)) s))
              (\<lambda>_. returnE [])
          else raiseE (ValueError (format E ''Unrecognized action {0}.'' [action_val action]))))))"

text \<open>
  \<^verbatim>\<open>run_action_list\<close> is a generator; every caller in the module consumes it at once with
  \<^verbatim>\<open>list(...)\<close>, and that is what is modelled: the actions run in order, the first
  exception ends the run, and the result is the list of yielded values.
\<close>

fun run_action_list ::
  "env \<Rightarrow> action list \<Rightarrow> (action_kind \<times> kwargs) list option \<Rightarrow> bool \<Rightarrow> (kwargs list) m" where
  "run_action_list E [] apply_kwargs raise_on_error = returnE []"
| "run_action_list E (act # actions) apply_kwargs raise_on_error =
     bindE (run_action E apply_kwargs raise_on_error act) (\<lambda>ys.
       bindE (run_action_list E actions apply_kwargs raise_on_error) (\<lambda>yss. returnE (ys @ yss)))"

section \<open>Direct operations\<close>

text \<open>\<^verbatim>\<open>map_name or self._default_map\<close>.\<close>

definition name_or_default :: "string option \<Rightarrow> string option \<Rightarrow> string option" where
  "name_or_default map_name dflt =
     (case map_name of None \<Rightarrow> dflt | Some n \<Rightarrow> if n \<noteq> [] then Some n else dflt)"

text \<open>The container name of lines 287 and 307.\<close>

definition wait_cname :: "env \<Rightarrow> state \<Rightarrow> string \<Rightarrow> string option \<Rightarrow> string option \<Rightarrow> string" where
  "wait_cname E s container instance map_name =
     cname E (name_or_default map_name (self_default_map s)) container instance"

definition wait :: "env \<Rightarrow> string \<Rightarrow> string option \<Rightarrow> string option \<Rightarrow> bool \<Rightarrow> unit m" where
  "wait E container instance map_name do_log =
     bindE (get_client E map_name) (\<lambda>cl s.
       (let c_name = wait_cname E s container instance map_name
        in bindE (call_command E cl (Wait (PStr c_name))) (\<lambda>_.
             if do_log then call_command E cl (PushContainerLogs (PStr c_name))
             else returnE ())) s)"

definition wait_and_remove ::
  "env \<Rightarrow> string \<Rightarrow> string option \<Rightarrow> string option \<Rightarrow> bool \<Rightarrow> kwargs \<Rightarrow> unit m" where
  "wait_and_remove E container instance map_name do_log kw =
     bindE (get_client E map_name) (\<lambda>cl s.
       (let c_name = wait_cname E s container instance map_name
        in bindE (wait E container instance map_name do_log) (\<lambda>_.
             call_command E cl (RemoveContainer (PStr c_name) kw))) s)"

definition refresh_names :: "state \<Rightarrow> state" where
  "refresh_names s = s\<lparr>self_image_tags := []\<rparr>"

section \<open>Persistent containers\<close>





section \<open>Sample collaborators\<close>

text \<open>
  Concrete collaborators on which the model can be run: an engine that answers every
  query with fixed values and lets \<open>f\<close> decide which commands raise, the naming scheme
  \<open>map.container[.instance]\<close>, a \<^verbatim>\<open>get_user_group\<close> that doubles a user name, and a
  formatter that joins the template and the string arguments.
\<close>

definition sample_engine :: "string list \<Rightarrow> (call \<Rightarrow> exn option) \<Rightarrow> engine" where
  "sample_engine tags f =
     \<lparr>r_containers = (\<lambda>_ _. Inr [\<lparr>Status = ''Up 2 hours'', Names = [''/m.web'']\<rparr>,
                                    \<lparr>Status = ''Exited (1) 3 days ago'', Names = [''/m.db'']\<rparr>]),
      r_create_container = (\<lambda>_ _ _ _ _. Inr [(''Id'', PStr ''tmp'')]),
      r_get_image_tags = (\<lambda>_ _. Inr tags),
      r_command = (\<lambda>_ _ c. f c)\<rparr>"

text \<open>A choice of \<open>f\<close>: exactly the command \<open>c\<close> raises \<open>e\<close>.\<close>

definition failing_on :: "call \<Rightarrow> exn \<Rightarrow> call \<Rightarrow> exn option" where
  "failing_on c e c' = (if c' = c then Some e else None)"

definition sample_cname :: "string option \<Rightarrow> string \<Rightarrow> string option \<Rightarrow> string" where
  "sample_cname map_name container instance =
     (case map_name of None \<Rightarrow> ''None'' | Some n \<Rightarrow> n) @ ''.'' @ container @
     (case instance of None \<Rightarrow> [] | Some i \<Rightarrow> ''.'' @ i)"

definition sample_format :: "string \<Rightarrow> pyval list \<Rightarrow> string" where
  "sample_format template args =
     template @ concat (map (\<lambda>v. case v of PStr x \<Rightarrow> '' '' @ x | _ \<Rightarrow> '' ?'') args)"

definition sample_env :: "string list \<Rightarrow> (call \<Rightarrow> exn option) \<Rightarrow> env" where
  "sample_env tags f =
     \<lparr>engine = sample_engine tags f, cname = sample_cname,
      get_user_group = (\<lambda>u. case u of PStr x \<Rightarrow> x @ '':'' @ x | _ \<Rightarrow> ''0:0''),
      format = sample_format\<rparr>"

text \<open>A client object constructed from one container map \<open>m\<close> with client 0.\<close>

definition sample_map :: container_map where
  "sample_map =
     \<lparr>name = ''m'',
      containers =
        [(''web'', \<lparr>attaches = [''sock''], persistent = False, instances = []\<rparr>),
         (''db'', \<lparr>attaches = [], persistent = True, instances = [''a'', ''b'']\<rparr>),
         (''job'', \<lparr>attaches = [], persistent = False, instances = []\<rparr>)]\<rparr>"

definition sample_state :: state where
  "sample_state =
     empty_state\<lparr>self_default_map := Some ''m'',
       self_maps := [(''m'', \<lparr>container_map = sample_map, client = 0\<rparr>)]\<rparr>"

section \<open>Observations on the calls made\<close>

text \<open>The calls a method has added to the trace, and among calls the container
  creations, which mark the helper-container runs.\<close>

definition new_events :: "state \<Rightarrow> state \<Rightarrow> event list" where
  "new_events s s' = drop (length (trace s)) (trace s')"



text \<open>The number of \<^verbatim>\<open>get_image_tags\<close> queries among some calls.\<close>

definition refreshes :: "event list \<Rightarrow> nat" where
  "refreshes t = length (filter (\<lambda>ev. snd ev = GetImageTags) t)"

text \<open>The engine call of a stop or remove action and the message logged when it fails.\<close>

definition teardown_call :: "action_kind \<Rightarrow> string \<Rightarrow> kwargs \<Rightarrow> call" where
  "teardown_call action container kw =
     (if action = ACTION_STOP then Stop (PStr container) kw else RemoveContainer (PStr container) kw)"

definition teardown_message :: "env \<Rightarrow> action_kind \<Rightarrow> string \<Rightarrow> string \<Rightarrow> string" where
  "teardown_message E action container explanation =
     format E (if action = ACTION_STOP then ''Failed to stop container '{0}': {1}''
               else ''Failed to remove container '{0}': {1}'')
       [PStr container, PStr explanation]"

section \<open>Sequences of operations\<close>

text \<open>
  The operations of a client object that act on its state, in order to speak about all
  of its lifetime. \<^verbatim>\<open>create\<close>, \<^verbatim>\<open>start\<close>, \<^verbatim>\<open>stop\<close> and \<^verbatim>\<open>remove\<close> are \<^verbatim>\<open>get_policy\<close>
  followed by \<^verbatim>\<open>run_action_list\<close> on the actions the policy plans.
\<close>

datatype operation =
    GetPolicy
  | RunActionList "action list" "(action_kind \<times> kwargs) list option" bool
  | WaitFor string "string option" "string option" bool
  | WaitAndRemove string "string option" "string option" bool kwargs
  | RefreshNames
  | SetDefaultMap "string option"

definition perform :: "env \<Rightarrow> operation \<Rightarrow> state \<Rightarrow> state" where
  "perform E opn s =
     (case opn of
        GetPolicy \<Rightarrow> snd (get_policy E s)
      | RunActionList actions apply_kwargs raise_on_error \<Rightarrow>
          snd (run_action_list E actions apply_kwargs raise_on_error s)
      | WaitFor container instance map_name do_log \<Rightarrow>
          snd (wait E container instance map_name do_log s)
      | WaitAndRemove container instance map_name do_log kw \<Rightarrow>
          snd (wait_and_remove E container instance map_name do_log kw s)
      | RefreshNames \<Rightarrow> refresh_names s
      | SetDefaultMap v \<Rightarrow> s\<lparr>self_default_map := v\<rparr>)"

fun perform_all :: "env \<Rightarrow> operation list \<Rightarrow> state \<Rightarrow> state" where
  "perform_all E [] s = s"
| "perform_all E (opn # ops) s = perform_all E ops (perform E opn s)"

text \<open>What the \<open>get_policy\<close> calls of a sequence return, in order.\<close>

fun policy_results :: "env \<Rightarrow> operation list \<Rightarrow> state \<Rightarrow> (exn + nat) list" where
  "policy_results E [] s = []"
| "policy_results E (opn # ops) s =
     (case opn of GetPolicy \<Rightarrow> [fst (get_policy E s)] | _ \<Rightarrow> []) @
     policy_results E ops (perform E opn s)"

text \<open>A computation that leaves the policy reference and the store of policy objects
  as they are.\<close>

definition keeps_policy :: "'a m \<Rightarrow> bool" where
  "keeps_policy f =
     (\<forall>s. self_policy (snd (f s)) = self_policy s
        \<and> policy_next (snd (f s)) = policy_next s
        \<and> policy_heap (snd (f s)) = policy_heap s)"

section \<open>Status classification\<close>

lemma match_literal_iff: "match_literal p s = Some r \<longleftrightarrow> s = p @ r"
  by (induction p s rule: match_literal.induct) auto

lemma match_literal_None_iff: "match_literal p s = None \<longleftrightarrow> \<not> prefix p s"
proof -
  have "match_literal p s \<noteq> None \<longleftrightarrow> (\<exists>r. s = p @ r)"
    using match_literal_iff [of p s] by (cases "match_literal p s") auto
  then show ?thesis by (auto simp: prefix_def)
qed

lemma close_paren_not_digit: "\<not> is_digit CHR '')''"
  by (simp add: is_digit_def)

lemma find_SomeD: "List.find P xs = Some x \<Longrightarrow> x \<in> set xs \<and> P x"
  by (induction xs) (auto split: if_splits)

lemma take_takeWhile_all: "k \<le> length (takeWhile P xs) \<Longrightarrow> list_all P (take k xs)"
proof (induction xs arbitrary: k)
  case Nil
  then show ?case by simp
next
  case (Cons x xs)
  then show ?case by (cases k) (auto split: if_splits)
qed

lemma exited_match_Some_D:
  assumes "exited_match s = Some g"
  shows "\<exists>rest. s = ''Exited ('' @ g @ '')'' @ rest \<and> g \<noteq> [] \<and> list_all is_digit g"
proof -
  from assms obtain r where r: "match_literal ''Exited ('' s = Some r"
    by (auto simp: exited_match_def split: option.splits)
  define n where "n = length (takeWhile is_digit r)"
  from assms r obtain k where
    k: "List.find (\<lambda>k. match_literal '')'' (drop k r) \<noteq> None) (rev [1 ..< Suc n]) = Some k"
    and g: "g = take k r"
    by (auto simp: exited_match_def n_def)
  from k have kin: "k \<in> set (rev [1 ..< Suc n])" and pk: "match_literal '')'' (drop k r) \<noteq> None"
    using find_SomeD [OF k] by blast+
  from kin have k1: "1 \<le> k" and kn: "k \<le> n" by auto
  from pk obtain rest where rest: "drop k r = '')'' @ rest"
    using match_literal_iff [of "'')''" "drop k r"] by (cases "match_literal '')'' (drop k r)") auto
  have dig: "list_all is_digit g"
    using kn unfolding g n_def by (rule take_takeWhile_all)
  have "k \<le> length r" using kn unfolding n_def
    by (meson le_trans length_takeWhile_le)
  moreover have "k \<noteq> length r \<or> drop k r = []" by simp
  ultimately have "g \<noteq> []" using k1 g rest by (cases r) auto
  moreover have "s = ''Exited ('' @ g @ '')'' @ rest"
    using r rest g match_literal_iff [of "''Exited (''" s r] by (metis append_take_drop_id)
  ultimately show ?thesis using dig by blast
qed

lemma find_only_last:
  assumes "\<forall>k<n. \<not> P k" "1 \<le> n" "P n"
  shows "List.find P (rev [1 ..< Suc n]) = Some n"
proof -
  have "rev [1 ..< Suc n] = n # rev [1 ..< n]" using assms(2) by simp
  then show ?thesis using assms(3) by simp
qed

lemma exited_match_digits:
  assumes "ds \<noteq> []" "list_all is_digit ds"
  shows "exited_match (''Exited ('' @ ds @ '')'' @ rest) = Some ds"
proof -
  define r where "r = ds @ '')'' @ rest"
  have lit: "match_literal ''Exited ('' (''Exited ('' @ ds @ '')'' @ rest) = Some r"
    unfolding r_def match_literal_iff by simp
  have tw: "takeWhile is_digit r = ds"
    using assms(2) close_paren_not_digit unfolding r_def
    by (simp add: takeWhile_append2 list_all_iff)
  have P: "match_literal '')'' (drop (length ds) r) \<noteq> None"
    unfolding r_def by simp
  have notP: "\<forall>k<length ds. \<not> (match_literal '')'' (drop k r) \<noteq> None)"
  proof (intro allI impI)
    fix k assume k: "k < length ds"
    then have "drop k r = (ds ! k) # drop (Suc k) ds @ '')'' @ rest"
      unfolding r_def by (simp add: Cons_nth_drop_Suc)
    moreover have "is_digit (ds ! k)" using assms(2) k by (simp add: list_all_length)
    ultimately show "\<not> (match_literal '')'' (drop k r) \<noteq> None)"
      using close_paren_not_digit by auto
  qed
  have "List.find (\<lambda>k. match_literal '')'' (drop k r) \<noteq> None) (rev [1 ..< Suc (length ds)]) = Some (length ds)"
    using find_only_last [of "length ds" "\<lambda>k. match_literal '')'' (drop k r) \<noteq> None"] notP P assms(1)
    by (simp add: Suc_leI)
  then show ?thesis
    using lit tw unfolding exited_match_def by (simp add: r_def)
qed

lemma int_of_digits_snoc:
  "int_of_digits (ds @ [c]) = 10 * int_of_digits ds + (int (of_char c) - 48)"
  by (simp add: int_of_digits_def)

lemma of_char_digit: "d < 10 \<Longrightarrow> (of_char (char_of (48 + d :: nat)) :: nat) = 48 + d"
  by simp

lemma decimal_digits: "list_all is_digit (decimal n)"
proof (induction n rule: decimal.induct)
  case (1 n)
  have d: "is_digit (char_of (48 + d))" if "d < 10" for d :: nat
    using that by (simp add: is_digit_def)
  show ?case
  proof (cases "n < 10")
    case True
    then show ?thesis using d [of n] by (subst decimal.simps) simp
  next
    case False
    then show ?thesis using 1 d [of "n mod 10"] by (subst decimal.simps) simp
  qed
qed

lemma decimal_nonempty: "decimal n \<noteq> []"
  by (subst decimal.simps) simp

lemma int_of_digits_decimal: "int_of_digits (decimal n) = int n"
proof (induction n rule: decimal.induct)
  case (1 n)
  show ?case
  proof (cases "n < 10")
    case True
    then show ?thesis by (subst decimal.simps) (simp add: int_of_digits_def)
  next
    case False
    then have "int_of_digits (decimal n) = 10 * int_of_digits (decimal (n div 10)) + (int (of_char (char_of (48 + n mod 10))) - 48)"
      by (subst decimal.simps) (simp add: int_of_digits_snoc)
    also have "\<dots> = 10 * int (n div 10) + int (n mod 10)"
      using 1 False by simp
    also have "\<dots> = int n" by presburger
    finally show ?thesis .
  qed
qed

lemma not_prefix_Up_Exited: "\<not> prefix ''Up'' (''Exited ('' @ x)"
  by (simp add: prefix_def)

text \<open>
  C4. The classification of a status string depends on the string only: the empty string
  gives \<open>False\<close> (not created); a string that starts with \<open>Up\<close> gives \<open>True\<close>
  (running); a string that starts with \<open>Exited (\<close>, a non-empty run of decimal digits
  and \<open>)\<close> gives the number the digits denote, so the numeral of \<open>n\<close> gives \<open>n\<close>, as
  for 137 and 0; every other string gives \<open>None\<close>.
\<close>

theorem status_classification:
  "status_value '''' = PBool False
   \<and> (\<forall>s. prefix ''Up'' s \<longrightarrow> status_value s = PBool True)
   \<and> (\<forall>ds rest. ds \<noteq> [] \<and> list_all is_digit ds \<longrightarrow>
         status_value (''Exited ('' @ ds @ '')'' @ rest) = PInt (int_of_digits ds))
   \<and> (\<forall>n rest. status_value (''Exited ('' @ decimal n @ '')'' @ rest) = PInt (int n))
   \<and> status_value ''Exited (137)'' = PInt 137
   \<and> status_value ''Exited (0)'' = PInt 0
   \<and> (\<forall>s. s \<noteq> '''' \<and> \<not> prefix ''Up'' s
          \<and> \<not> (\<exists>ds rest. ds \<noteq> [] \<and> list_all is_digit ds \<and> s = ''Exited ('' @ ds @ '')'' @ rest)
        \<longrightarrow> status_value s = PNone)"
proof (intro conjI allI impI)
  show "status_value '''' = PBool False" by (simp add: status_value_def)
next
  fix s assume "prefix ''Up'' s"
  then show "status_value s = PBool True" by (auto simp: status_value_def)
next
  fix ds rest assume "ds \<noteq> [] \<and> list_all is_digit ds"
  then show "status_value (''Exited ('' @ ds @ '')'' @ rest) = PInt (int_of_digits ds)"
    using exited_match_digits [of ds rest] not_prefix_Up_Exited [of "ds @ '')'' @ rest"]
    by (simp add: status_value_def)
next
  fix n rest
  show "status_value (''Exited ('' @ decimal n @ '')'' @ rest) = PInt (int n)"
    using exited_match_digits [OF decimal_nonempty decimal_digits, of n rest]
      not_prefix_Up_Exited [of "decimal n @ '')'' @ rest"]
    by (simp add: status_value_def int_of_digits_decimal)
next
  have "''Exited (137)'' = ''Exited ('' @ ''137'' @ '')'' @ ''''" by simp
  moreover have "list_all is_digit ''137''" by (simp add: is_digit_def)
  ultimately have "exited_match ''Exited (137)'' = Some ''137''"
    using exited_match_digits [of "''137''" "''''"] by simp
  then show "status_value ''Exited (137)'' = PInt 137"
    by (simp add: status_value_def int_of_digits_def prefix_def)
next
  have "list_all is_digit ''0''" by (simp add: is_digit_def)
  then have "exited_match ''Exited (0)'' = Some ''0''"
    using exited_match_digits [of "''0''" "''''"] by simp
  then show "status_value ''Exited (0)'' = PInt 0"
    by (simp add: status_value_def int_of_digits_def prefix_def)
next
  fix s
  assume a: "s \<noteq> '''' \<and> \<not> prefix ''Up'' s
      \<and> \<not> (\<exists>ds rest. ds \<noteq> [] \<and> list_all is_digit ds \<and> s = ''Exited ('' @ ds @ '')'' @ rest)"
  have "exited_match s = None"
  proof (cases "exited_match s")
    case (Some g)
    from exited_match_Some_D [OF Some] a show ?thesis by blast
  qed simp
  with a show "status_value s = PNone" by (simp add: status_value_def)
qed

theorem status_classification_witness:
  "prefix ''Up'' ''Up 3 hours'' \<and> status_value ''Up 3 hours'' = PBool True
   \<and> ''42'' \<noteq> [] \<and> list_all is_digit ''42''
   \<and> status_value (''Exited ('' @ ''42'' @ '')'' @ '' 5 minutes ago'') = PInt (int_of_digits ''42'')
   \<and> ''Created'' \<noteq> '''' \<and> \<not> prefix ''Up'' ''Created''
   \<and> \<not> (\<exists>ds rest. ds \<noteq> [] \<and> list_all is_digit ds \<and> ''Created'' = ''Exited ('' @ ds @ '')'' @ rest)
   \<and> status_value ''Created'' = PNone"
proof -
  have up: "prefix ''Up'' ''Up 3 hours''" by (simp add: prefix_def)
  have dg: "''42'' \<noteq> [] \<and> list_all is_digit ''42''" by (simp add: is_digit_def)
  have ot: "''Created'' \<noteq> '''' \<and> \<not> prefix ''Up'' ''Created''
     \<and> \<not> (\<exists>ds rest. ds \<noteq> [] \<and> list_all is_digit ds \<and> ''Created'' = ''Exited ('' @ ds @ '')'' @ rest)"
    by (simp add: prefix_def)
  note c = status_classification
  note c2 = c [THEN conjunct2, THEN conjunct1, rule_format, OF up]
  note c3 = c [THEN conjunct2, THEN conjunct2, THEN conjunct1, rule_format, OF dg]
  note c7 = c [THEN conjunct2, THEN conjunct2, THEN conjunct2, THEN conjunct2, THEN conjunct2,
               THEN conjunct2, rule_format, OF ot]
  show ?thesis using up dg ot c2 c3 [of "'' 5 minutes ago''"] c7 by (intro conjI) blast+
qed

section \<open>Basic facts\<close>

lemma bindE_returnE: "bindE (returnE x) g = g x"
  by (rule ext) (simp add: bindE_def returnE_def)

lemma bindE_raiseE: "bindE (raiseE e) g = raiseE e"
  by (rule ext) (simp add: bindE_def raiseE_def)

lemma bindE_returnE_right: "bindE f returnE = f"
  by (rule ext) (simp add: bindE_def returnE_def split: prod.splits sum.splits)

lemma bindE_unit_nil: "bindE f (\<lambda>yss. returnE ([] @ yss)) = f"
  using bindE_returnE_right [of f] by (simp add: returnE_def [abs_def])

lemma bindE_Inr: "f s = (Inr x, s') \<Longrightarrow> bindE f g s = g x s'"
  by (simp add: bindE_def)

lemma bindE_Inl: "f s = (Inl e, s') \<Longrightarrow> bindE f g s = (Inl e, s')"
  by (simp add: bindE_def)

lemma get_client_Some: "maps_get s map_name = Some mc \<Longrightarrow> get_client E map_name s = (Inr (client mc), s)"
  by (simp add: get_client_def returnE_def)

lemma get_client_None:
  "maps_get s map_name = None \<Longrightarrow>
   get_client E map_name s = (Inl (ValueError (format E ''No map found with name '{0}'.'' [name_val map_name])), s)"
  by (simp add: get_client_def raiseE_def)

lemma init_sample: "init (SingleMap sample_map 0) = Inr sample_state"
  by (simp add: init_def sample_state_def sample_map_def)

text \<open>The definitions to unfold when the model is run on a concrete input.\<close>

lemmas run_defs =
  ensure_images_def get_image_tags_def get_client_def maps_get_def cached_tags_def
  check_image_def partition_sep_def bindE_def returnE_def raiseE_def
  call_command_def call_get_image_tags_def call_create_container_def call_containers_def
  record_call_def store_image_tags_def push_log_def finallyE_def
  sample_state_def empty_state_def sample_env_def sample_engine_def sample_map_def

section \<open>Image cache reset\<close>

lemma get_image_tags_miss:
  assumes "cached_tags s (Some n) = None \<or> force" "map_of (self_maps s) n = Some mc"
  shows "get_image_tags E (Some n) force s =
           (case r_get_image_tags (engine E) (trace s) (client mc) of
              Inl e \<Rightarrow> (Inl e, record_call (client mc) GetImageTags s)
            | Inr tags \<Rightarrow> (Inr tags, store_image_tags (Some n) tags (record_call (client mc) GetImageTags s)))"
proof -
  have g: "get_client E (Some n) s = (Inr (client mc), s)"
    using assms(2) by (simp add: get_client_Some maps_get_def)
  have c: "(if \<not> force then cached_tags s (Some n) else None) = None"
    using assms(1) by auto
  show ?thesis
    unfolding get_image_tags_def c
    by (simp add: g bindE_def call_get_image_tags_def split: sum.splits)
qed

text \<open>
  C10. \<open>refresh_names\<close> empties the image-tag cache, whatever it held and for every map.
  Afterwards a \<open>get_image_tags\<close> call for any registered map, forced or not, makes
  exactly one engine query on that map's client; it returns the engine's answer and, when
  the engine answers with tags, stores them as the cache entry of that map. A call for one
  map leaves the entry of every other map empty, so the next call for each map queries.
\<close>

theorem refresh_names_clears_cache:
  "self_image_tags (refresh_names s) = []
   \<and> (\<forall>map_name. cached_tags (refresh_names s) map_name = None)
   \<and> (\<forall>n mc force r s'.
        map_of (self_maps s) n = Some mc
        \<and> get_image_tags E (Some n) force (refresh_names s) = (r, s')
        \<longrightarrow> r = r_get_image_tags (engine E) (trace s) (client mc)
            \<and> trace s' = trace s @ [(client mc, GetImageTags)]
            \<and> (\<forall>tags. r = Inr tags \<longrightarrow> cached_tags s' (Some n) = Some tags)
            \<and> (\<forall>n'. n' \<noteq> n \<longrightarrow> cached_tags s' (Some n') = None)
            \<and> self_maps s' = self_maps s)"
proof (intro conjI allI impI)
  show "self_image_tags (refresh_names s) = []" by (simp add: refresh_names_def)
next
  fix map_name show "cached_tags (refresh_names s) map_name = None"
    by (simp add: refresh_names_def cached_tags_def split: option.splits)
next
  fix n mc force r s'
  assume a: "map_of (self_maps s) n = Some mc
        \<and> get_image_tags E (Some n) force (refresh_names s) = (r, s')"
  have miss: "cached_tags (refresh_names s) (Some n) = None \<or> force"
    by (simp add: refresh_names_def cached_tags_def)
  have reg: "map_of (self_maps (refresh_names s)) n = Some mc"
    using a by (simp add: refresh_names_def)
  note eq = get_image_tags_miss [OF miss reg, of E]
  have tr: "trace (refresh_names s) = trace s" by (simp add: refresh_names_def)
  from a eq have rs: "(r, s') =
      (case r_get_image_tags (engine E) (trace s) (client mc) of
              Inl e \<Rightarrow> (Inl e, record_call (client mc) GetImageTags (refresh_names s))
            | Inr tags \<Rightarrow> (Inr tags, store_image_tags (Some n) tags (record_call (client mc) GetImageTags (refresh_names s))))"
    by (simp add: tr)
  show "r = r_get_image_tags (engine E) (trace s) (client mc)"
    using rs by (auto split: sum.splits)
  show "trace s' = trace s @ [(client mc, GetImageTags)]"
    using rs by (auto simp: record_call_def store_image_tags_def refresh_names_def split: sum.splits)
  show "self_maps s' = self_maps s"
    using rs by (auto simp: record_call_def store_image_tags_def refresh_names_def split: sum.splits)
  { fix tags assume "r = Inr tags"
    then show "cached_tags s' (Some n) = Some tags"
      using rs by (auto simp: record_call_def store_image_tags_def refresh_names_def cached_tags_def
          update_conv' split: sum.splits) }
  { fix n' :: string assume "n' \<noteq> n"
    then show "cached_tags s' (Some n') = None"
      using rs by (auto simp: record_call_def store_image_tags_def refresh_names_def cached_tags_def
          update_conv' split: sum.splits) }
qed

theorem refresh_names_clears_cache_witness:
  "map_of (self_maps (sample_state\<lparr>self_image_tags := [(''m'', [''old:1''])]\<rparr>)) ''m''
     = Some \<lparr>container_map = sample_map, client = 0\<rparr>
   \<and> get_image_tags (sample_env [''new:2''] (\<lambda>_. None)) (Some ''m'') False
        (refresh_names (sample_state\<lparr>self_image_tags := [(''m'', [''old:1''])]\<rparr>))
       = (Inr [''new:2''],
          sample_state\<lparr>self_image_tags := [(''m'', [''new:2''])], trace := [(0, GetImageTags)]\<rparr>)
   \<and> cached_tags (sample_state\<lparr>self_image_tags := [(''m'', [''new:2''])], trace := [(0, GetImageTags)]\<rparr>)
        (Some ''m'') = Some [''new:2'']"
proof -
  let ?s = "sample_state\<lparr>self_image_tags := [(''m'', [''old:1''])]\<rparr>"
  let ?E = "sample_env [''new:2''] (\<lambda>_. None)"
  let ?s' = "sample_state\<lparr>self_image_tags := [(''m'', [''new:2''])], trace := [(0, GetImageTags)]\<rparr>"
  have reg: "map_of (self_maps ?s) ''m'' = Some \<lparr>container_map = sample_map, client = 0\<rparr>"
    by (simp add: sample_state_def)
  have run: "get_image_tags ?E (Some ''m'') False (refresh_names ?s) = (Inr [''new:2''], ?s')"
    by (simp add: get_image_tags_def refresh_names_def cached_tags_def get_client_def maps_get_def
        sample_state_def empty_state_def bindE_def returnE_def call_get_image_tags_def
        sample_env_def sample_engine_def record_call_def store_image_tags_def)
  from refresh_names_clears_cache [of ?s ?E, THEN conjunct2, THEN conjunct2, rule_format,
      OF conjI [OF reg run]]
  have "cached_tags ?s' (Some ''m'') = Some [''new:2'']" by blast
  with reg run show ?thesis by blast
qed

section \<open>Waiting without a map name\<close>

text \<open>
  C5. When \<open>map_name\<close> is omitted (\<open>None\<close>), \<open>wait\<close> and \<open>wait_and_remove\<close> look the client
  up under \<open>None\<close>, not under the default map name: whatever the default map is, the call
  raises the unknown-map \<open>ValueError\<close> and makes no engine call. The expression for the
  container name, in contrast, does fall back to the default map; it comes after the
  lookup in both methods.
\<close>

theorem wait_without_map_name:
  "wait E container instance None do_log s =
     (Inl (ValueError (format E ''No map found with name '{0}'.'' [PNone])), s)
   \<and> wait_and_remove E container instance None do_log kw s =
     (Inl (ValueError (format E ''No map found with name '{0}'.'' [PNone])), s)
   \<and> wait_cname E s container instance None = cname E (self_default_map s) container instance"
proof -
  have g: "get_client E None s = (Inl (ValueError (format E ''No map found with name '{0}'.'' [PNone])), s)"
    using get_client_None [of s None E] by (simp add: maps_get_def name_val_def)
  show ?thesis
    by (simp add: wait_def wait_and_remove_def bindE_def g wait_cname_def name_or_default_def)
qed

theorem wait_without_map_name_witness:
  "self_default_map sample_state = Some ''m''
   \<and> fst (wait (sample_env [] (\<lambda>_. None)) ''web'' None None True sample_state)
       = Inl (ValueError ''No map found with name '{0}'. ?'')
   \<and> trace (snd (wait (sample_env [] (\<lambda>_. None)) ''web'' None None True sample_state)) = []
   \<and> wait_cname (sample_env [] (\<lambda>_. None)) sample_state ''web'' None None = ''m.web''"
  using wait_without_map_name [of "sample_env [] (\<lambda>_. None)" "''web''" None True sample_state]
  by (simp add: sample_state_def empty_state_def sample_env_def sample_format_def sample_cname_def)

section \<open>Persistent containers\<close>




section \<open>Ensuring images\<close>

lemma state_trace_same: "s\<lparr>trace := trace s\<rparr> = s"
  by simp

lemma check_image_cases:
  assumes "check_image E cl mi img s = (r, s')"
  shows "(s' = s \<and> (r = Inr False \<or> r = Inl (AttributeError ''partition'')))
       \<or> (\<exists>b t. s' = record_call cl (ImportImage b t) s \<and> (r = Inr True \<or> (\<exists>e. r = Inl e)))"
proof (cases img)
  case (PStr image_name)
  obtain b sep tag where p: "partition_sep CHR '':'' image_name = (b, sep, tag)"
    by (cases "partition_sep CHR '':'' image_name") auto
  show ?thesis
    using assms unfolding check_image_def PStr
    by (auto simp: p Let_def bindE_def returnE_def call_command_def split: if_splits option.splits)
qed (use assms in \<open>auto simp: check_image_def raiseE_def\<close>)

lemma check_images_trace:
  "check_images E cl mi imgs s = (r, s') \<Longrightarrow>
     \<exists>imps. s' = s\<lparr>trace := trace s @ imps\<rparr>
       \<and> (\<forall>ev\<in>set imps. \<exists>b t. ev = (cl, ImportImage b t))
       \<and> (\<forall>flags. r = Inr flags \<longrightarrow> (list_ex (\<lambda>b. b) flags \<longleftrightarrow> imps \<noteq> []))"
proof (induction imgs arbitrary: s r s')
  case Nil
  then have "s' = s\<lparr>trace := trace s @ []\<rparr>" "r = Inr []" by (auto simp: returnE_def)
  then show ?case by (intro exI [of _ "[]"]) simp
next
  case (Cons img imgs)
  obtain r1 s1 where c1: "check_image E cl mi img s = (r1, s1)"
    by (cases "check_image E cl mi img s") auto
  obtain r2 s2 where c2: "check_images E cl mi imgs s1 = (r2, s2)"
    by (cases "check_images E cl mi imgs s1") auto
  from Cons.IH [OF c2] obtain rest where rest:
    "s2 = s1\<lparr>trace := trace s1 @ rest\<rparr>"
    "\<forall>ev\<in>set rest. \<exists>b t. ev = (cl, ImportImage b t)"
    "\<forall>flags. r2 = Inr flags \<longrightarrow> (list_ex (\<lambda>b. b) flags \<longleftrightarrow> rest \<noteq> [])"
    by blast
  from check_image_cases [OF c1] consider
    (none) "s1 = s" "r1 = Inr False \<or> r1 = Inl (AttributeError ''partition'')"
    | (imp) b t where "s1 = record_call cl (ImportImage b t) s" "r1 = Inr True \<or> (\<exists>e. r1 = Inl e)"
    by blast
  then show ?case
  proof cases
    case none
    show ?thesis
    proof (cases r1)
      case (Inl e)
      with Cons.prems c1 none have "s' = s\<lparr>trace := trace s @ []\<rparr>" "r = Inl e"
        by (auto simp: bindE_def)
      then show ?thesis by (intro exI [of _ "[]"]) simp
    next
      case (Inr b1)
      with none have b1: "b1 = False" by simp
      from Cons.prems c1 c2 Inr have "s' = s2" "r = (case r2 of Inl e \<Rightarrow> Inl e | Inr bs \<Rightarrow> Inr (b1 # bs))"
        by (auto simp: bindE_def returnE_def split: sum.splits)
      then show ?thesis using rest none b1
        by (intro exI [of _ rest]) (auto split: sum.splits)
    qed
  next
    case imp
    show ?thesis
    proof (cases r1)
      case (Inl e)
      with Cons.prems c1 imp have "s' = s\<lparr>trace := trace s @ [(cl, ImportImage b t)]\<rparr>" "r = Inl e"
        by (auto simp: bindE_def record_call_def)
      then show ?thesis by (intro exI [of _ "[(cl, ImportImage b t)]"]) simp
    next
      case (Inr b1)
      with imp have b1: "b1 = True" by auto
      from Cons.prems c1 c2 Inr have "s' = s2" "r = (case r2 of Inl e \<Rightarrow> Inl e | Inr bs \<Rightarrow> Inr (b1 # bs))"
        by (auto simp: bindE_def returnE_def split: sum.splits)
      then show ?thesis using rest imp b1
        by (intro exI [of _ "(cl, ImportImage b t) # rest"])
           (auto simp: record_call_def split: sum.splits)
    qed
  qed
qed

lemma get_image_tags_maps:
  "get_image_tags E map_name force s = (r, s') \<Longrightarrow> self_maps s' = self_maps s"
  by (auto simp: get_image_tags_def get_client_def bindE_def returnE_def raiseE_def
      call_get_image_tags_def record_call_def store_image_tags_def
      split: option.splits if_splits sum.splits prod.splits)

lemma check_images_tags:
  "check_images E cl mi imgs s = (r, s') \<Longrightarrow> self_image_tags s' = self_image_tags s"
  using check_images_trace [of E cl mi imgs s r s'] by auto

text \<open>
  C7. In a call of \<open>ensure_images\<close> whose client lookup and first reading of the tags
  succeed, the calls made after that reading are the imports of the batch, all on the
  map's client. When the batch ran to its end and made at least one import, exactly one
  \<open>get_image_tags\<close> query follows, after all imports, and the engine's answer replaces the
  cache entry of the map. Otherwise no query follows and the cache stays as it was: that
  is the case when nothing was imported, and also when an import (or the reading of a
  reference) raised, whatever was imported before; the exception then ends the call.
\<close>

theorem ensure_images_refresh_once:
  assumes "maps_get s map_name = Some mc"
    and "get_image_tags E map_name False s = (Inr map_images, s1)"
    and "check_images E (client mc) map_images images s1 = (r, s2)"
    and "ensure_images E map_name images s = (res, s')"
  shows "\<exists>imps.
           trace s2 = trace s1 @ imps
         \<and> (\<forall>ev\<in>set imps. \<exists>b t. ev = (client mc, ImportImage b t))
         \<and> self_image_tags s2 = self_image_tags s1
         \<and> (if (\<exists>flags. r = Inr flags) \<and> imps \<noteq> []
             then trace s' = trace s2 @ [(client mc, GetImageTags)]
                \<and> refreshes (new_events s1 s') = 1
                \<and> (\<forall>tags. r_get_image_tags (engine E) (trace s2) (client mc) = Inr tags \<longrightarrow>
                       res = Inr () \<and> cached_tags s' map_name = Some tags)
                \<and> (\<forall>e. r_get_image_tags (engine E) (trace s2) (client mc) = Inl e \<longrightarrow>
                       res = Inl e \<and> self_image_tags s' = self_image_tags s1)
             else s' = s2
                \<and> refreshes (new_events s1 s') = 0
                \<and> (\<forall>e. r = Inl e \<longrightarrow> res = Inl e)
                \<and> (\<forall>flags. r = Inr flags \<longrightarrow> res = Inr ()))"
proof -
  from assms(1) obtain n where n: "map_name = Some n" "map_of (self_maps s) n = Some mc"
    by (auto simp: maps_get_def split: option.splits)
  have g: "get_client E map_name s = (Inr (client mc), s)"
    using assms(1) by (rule get_client_Some)
  from check_images_trace [OF assms(3)] obtain imps where imp:
    "s2 = s1\<lparr>trace := trace s1 @ imps\<rparr>"
    "\<forall>ev\<in>set imps. \<exists>b t. ev = (client mc, ImportImage b t)"
    "\<forall>flags. r = Inr flags \<longrightarrow> (list_ex (\<lambda>b. b) flags \<longleftrightarrow> imps \<noteq> [])"
    by blast
  have noref: "filter (\<lambda>ev. snd ev = GetImageTags) imps = []"
    using imp(2) by (auto simp: filter_empty_conv)
  have maps2: "map_of (self_maps s2) n = Some mc"
    using get_image_tags_maps [OF assms(2)] imp(1) n(2) by simp
  have t2: "trace s2 = trace s1 @ imps" using imp(1) by simp
  have c2: "self_image_tags s2 = self_image_tags s1" using imp(1) by simp
  have ne2: "new_events s1 s2 = imps" using t2 by (simp add: new_events_def)
  have rest: "if (\<exists>flags. r = Inr flags) \<and> imps \<noteq> []
             then trace s' = trace s2 @ [(client mc, GetImageTags)]
                \<and> refreshes (new_events s1 s') = 1
                \<and> (\<forall>tags. r_get_image_tags (engine E) (trace s2) (client mc) = Inr tags \<longrightarrow>
                       res = Inr () \<and> cached_tags s' map_name = Some tags)
                \<and> (\<forall>e. r_get_image_tags (engine E) (trace s2) (client mc) = Inl e \<longrightarrow>
                       res = Inl e \<and> self_image_tags s' = self_image_tags s1)
             else s' = s2
                \<and> refreshes (new_events s1 s') = 0
                \<and> (\<forall>e. r = Inl e \<longrightarrow> res = Inl e)
                \<and> (\<forall>flags. r = Inr flags \<longrightarrow> res = Inr ())"
  proof (cases r)
    case (Inl e)
    with assms(4) g assms(2) assms(3) have "s' = s2" "res = Inl e"
      by (simp_all add: ensure_images_def bindE_def)
    with Inl show ?thesis by (simp add: ne2 refreshes_def noref)
  next
    case (Inr flags)
    show ?thesis
    proof (cases "imps = []")
      case True
      with imp(3) Inr have "\<not> list_ex (\<lambda>b. b) flags" by simp
      with assms(4) g assms(2) assms(3) Inr have "s' = s2" "res = Inr ()"
        by (simp_all add: ensure_images_def bindE_def returnE_def)
      with True Inr show ?thesis by (simp add: ne2 refreshes_def)
    next
      case False
      with imp(3) Inr have ex: "list_ex (\<lambda>b. b) flags" by simp
      obtain r3 s3 where f: "get_image_tags E (Some n) True s2 = (r3, s3)"
        by (cases "get_image_tags E (Some n) True s2") auto
      note miss = get_image_tags_miss [of s2 n True mc E]
      have s': "s' = s3" and res: "res = (case r3 of Inl e \<Rightarrow> Inl e | Inr _ \<Rightarrow> Inr ())"
        using assms(4) g assms(2) assms(3) Inr ex f n(1)
        by (auto simp: ensure_images_def bindE_def returnE_def split: sum.splits)
      have tr: "trace s3 = trace s2 @ [(client mc, GetImageTags)]"
        using f miss maps2
        by (auto simp: record_call_def store_image_tags_def split: sum.splits)
      have ok: "r_get_image_tags (engine E) (trace s2) (client mc) = Inr tags \<Longrightarrow>
          r3 = Inr tags \<and> cached_tags s3 (Some n) = Some tags" for tags
        using f miss maps2
        by (auto simp: record_call_def store_image_tags_def cached_tags_def update_conv')
      have bad: "r_get_image_tags (engine E) (trace s2) (client mc) = Inl e \<Longrightarrow>
          r3 = Inl e \<and> self_image_tags s3 = self_image_tags s2" for e
        using f miss maps2 by (auto simp: record_call_def)
      have cnt: "refreshes (new_events s1 s3) = 1"
        using tr t2 by (simp add: new_events_def refreshes_def noref)
      show ?thesis
        using False Inr s' res tr ok bad cnt c2 n(1) by auto
    qed
  qed
  show ?thesis
    by (intro exI [of _ imps] conjI t2 imp(2) c2 rest)
qed

theorem ensure_images_refresh_once_witness:
  "maps_get (sample_state\<lparr>self_image_tags := [(''m'', [''old:1''])]\<rparr>) (Some ''m'')
     = Some \<lparr>container_map = sample_map, client = 0\<rparr>
   \<and> get_image_tags (sample_env [''redis:latest'', ''nginx:latest''] (\<lambda>_. None))
        (Some ''m'') False (sample_state\<lparr>self_image_tags := [(''m'', [''old:1''])]\<rparr>)
       = (Inr [''old:1''], sample_state\<lparr>self_image_tags := [(''m'', [''old:1''])]\<rparr>)
   \<and> check_images (sample_env [''redis:latest'', ''nginx:latest''] (\<lambda>_. None))
        0 [''old:1''] [PStr ''old:1'', PStr ''redis'', PStr ''nginx'']
        (sample_state\<lparr>self_image_tags := [(''m'', [''old:1''])]\<rparr>)
       = (Inr [True, True, True],
          sample_state\<lparr>self_image_tags := [(''m'', [''old:1''])],
            trace := [(0, ImportImage ''old'' ''1''), (0, ImportImage ''redis'' ''latest''),
                      (0, ImportImage ''nginx'' ''latest'')]\<rparr>)
   \<and> ensure_images (sample_env [''redis:latest'', ''nginx:latest''] (\<lambda>_. None))
        (Some ''m'') [PStr ''old:1'', PStr ''redis'', PStr ''nginx'']
        (sample_state\<lparr>self_image_tags := [(''m'', [''old:1''])]\<rparr>)
       = (Inr (),
          sample_state\<lparr>self_image_tags := [(''m'', [''redis:latest'', ''nginx:latest''])],
            trace := [(0, ImportImage ''old'' ''1''), (0, ImportImage ''redis'' ''latest''),
                      (0, ImportImage ''nginx'' ''latest''), (0, GetImageTags)]\<rparr>)
   \<and> refreshes (new_events (sample_state\<lparr>self_image_tags := [(''m'', [''old:1''])]\<rparr>)
        (sample_state\<lparr>self_image_tags := [(''m'', [''redis:latest'', ''nginx:latest''])],
            trace := [(0, ImportImage ''old'' ''1''), (0, ImportImage ''redis'' ''latest''),
                      (0, ImportImage ''nginx'' ''latest''), (0, GetImageTags)]\<rparr>)) = 1
   \<and> cached_tags
        (sample_state\<lparr>self_image_tags := [(''m'', [''redis:latest'', ''nginx:latest''])],
            trace := [(0, ImportImage ''old'' ''1''), (0, ImportImage ''redis'' ''latest''),
                      (0, ImportImage ''nginx'' ''latest''), (0, GetImageTags)]\<rparr>) (Some ''m'')
       = Some [''redis:latest'', ''nginx:latest'']"
proof -
  let ?E = "sample_env [''redis:latest'', ''nginx:latest''] (\<lambda>_. None)"
  let ?mc = "\<lparr>container_map = sample_map, client = 0\<rparr>"
  let ?imgs = "[PStr ''old:1'', PStr ''redis'', PStr ''nginx'']"
  let ?s = "sample_state\<lparr>self_image_tags := [(''m'', [''old:1''])]\<rparr>"
  let ?s2 = "sample_state\<lparr>self_image_tags := [(''m'', [''old:1''])],
            trace := [(0, ImportImage ''old'' ''1''), (0, ImportImage ''redis'' ''latest''),
                      (0, ImportImage ''nginx'' ''latest'')]\<rparr>"
  let ?s3 = "sample_state\<lparr>self_image_tags := [(''m'', [''redis:latest'', ''nginx:latest''])],
            trace := [(0, ImportImage ''old'' ''1''), (0, ImportImage ''redis'' ''latest''),
                      (0, ImportImage ''nginx'' ''latest''), (0, GetImageTags)]\<rparr>"
  have h1: "maps_get ?s (Some ''m'') = Some ?mc"
    by (simp add: maps_get_def sample_state_def)
  have h2: "get_image_tags ?E (Some ''m'') False ?s = (Inr [''old:1''], ?s)"
    by (simp add: run_defs)
  have h3: "check_images ?E (client ?mc) [''old:1''] ?imgs ?s = (Inr [True, True, True], ?s2)"
    by (simp add: run_defs)
  have h4: "ensure_images ?E (Some ''m'') ?imgs ?s = (Inr (), ?s3)"
    by (simp add: run_defs)
  have q: "r_get_image_tags (engine ?E) (trace ?s2) (client ?mc) = Inr [''redis:latest'', ''nginx:latest'']"
    by (simp add: sample_env_def sample_engine_def)
  from ensure_images_refresh_once [OF h1 h2 h3 h4] obtain imps where
    a: "trace ?s2 = trace ?s @ imps"
    and b: "if (\<exists>flags. (Inr [True, True, True] :: exn + bool list) = Inr flags) \<and> imps \<noteq> []
             then trace ?s3 = trace ?s2 @ [(client ?mc, GetImageTags)]
                \<and> refreshes (new_events ?s ?s3) = 1
                \<and> (\<forall>tags. r_get_image_tags (engine ?E) (trace ?s2) (client ?mc) = Inr tags \<longrightarrow>
                       (Inr () :: exn + unit) = Inr () \<and> cached_tags ?s3 (Some ''m'') = Some tags)
                \<and> (\<forall>e. r_get_image_tags (engine ?E) (trace ?s2) (client ?mc) = Inl e \<longrightarrow>
                       (Inr () :: exn + unit) = Inl e \<and> self_image_tags ?s3 = self_image_tags ?s)
             else ?s3 = ?s2
                \<and> refreshes (new_events ?s ?s3) = 0
                \<and> (\<forall>e. (Inr [True, True, True] :: exn + bool list) = Inl e \<longrightarrow> (Inr () :: exn + unit) = Inl e)
                \<and> (\<forall>flags. (Inr [True, True, True] :: exn + bool list) = Inr flags \<longrightarrow> (Inr () :: exn + unit) = Inr ())"
    by blast
  from a have ne: "imps \<noteq> []" by (auto simp: sample_state_def empty_state_def)
  from b ne have c: "refreshes (new_events ?s ?s3) = 1"
    and d: "\<forall>tags. r_get_image_tags (engine ?E) (trace ?s2) (client ?mc) = Inr tags \<longrightarrow>
                cached_tags ?s3 (Some ''m'') = Some tags"
    by simp_all
  from d q have e: "cached_tags ?s3 (Some ''m'') = Some [''redis:latest'', ''nginx:latest'']" by blast
  from h1 h2 h3 h4 c e show ?thesis by simp
qed

text \<open>
  A batch in which the first import succeeds and the second raises: the exception ends
  the call, no \<open>get_image_tags\<close> query is made although an image was imported, and the
  cache entry of the map is what it was before.
\<close>

theorem ensure_images_no_refresh_counterexample:
  "ensure_images
     (sample_env [''nginx:latest''] (failing_on (ImportImage ''busybox'' ''latest'') (APIError 500 ''no pull'')))
     (Some ''m'') [PStr ''nginx'', PStr ''busybox'']
     (sample_state\<lparr>self_image_tags := [(''m'', [''redis:latest''])]\<rparr>)
   = (Inl (APIError 500 ''no pull''),
      sample_state\<lparr>self_image_tags := [(''m'', [''redis:latest''])],
        trace := [(0, ImportImage ''nginx'' ''latest''), (0, ImportImage ''busybox'' ''latest'')]\<rparr>)
   \<and> refreshes [(0, ImportImage ''nginx'' ''latest''), (0, ImportImage ''busybox'' ''latest'')] = 0"
  by (simp add: run_defs failing_on_def refreshes_def)

text \<open>
  What \<open>check_image\<close> looks up in the cached tags: for a reference without a tag the name
  with \<open>:latest\<close> appended, but for a reference with a tag the part before the colon alone.
\<close>

lemma check_image_lookup:
  assumes "partition_sep CHR '':'' image_name = (b, sep, tag)"
  shows "trace (snd (check_image E cl map_images (PStr image_name) s)) =
           trace s @
           (if (if tag \<noteq> [] then b else b @ '':latest'') \<notin> set map_images
            then [(cl, ImportImage b (if tag \<noteq> [] then tag else ''latest''))] else [])"
  using assms
  by (simp add: check_image_def Let_def bindE_def returnE_def call_command_def record_call_def
      split: option.splits)

text \<open>
  C1. The reference \<open>ubuntu:14.04\<close> is requested while the cached tags of the map contain
  exactly that reference. It is split into \<open>ubuntu\<close> and \<open>14.04\<close>, but the name looked up
  in the cache is \<open>ubuntu\<close>, which is not a cached tag, so the image is imported although
  the fully qualified reference is present (and the cache is then refreshed).
\<close>

theorem ensure_images_imports_cached_tagged_image:
  "partition_sep CHR '':'' ''ubuntu:14.04'' = (''ubuntu'', '':'', ''14.04'')
   \<and> cached_tags (sample_state\<lparr>self_image_tags := [(''m'', [''ubuntu:14.04''])]\<rparr>) (Some ''m'')
       = Some [''ubuntu:14.04'']
   \<and> ensure_images (sample_env [''ubuntu:14.04''] (\<lambda>_. None)) (Some ''m'') [PStr ''ubuntu:14.04'']
        (sample_state\<lparr>self_image_tags := [(''m'', [''ubuntu:14.04''])]\<rparr>)
       = (Inr (),
          sample_state\<lparr>self_image_tags := [(''m'', [''ubuntu:14.04''])],
            trace := [(0, ImportImage ''ubuntu'' ''14.04''), (0, GetImageTags)]\<rparr>)"
  by (simp add: run_defs)

section \<open>Permission adjustment\<close>

lemma new_events_append: "new_events s (s\<lparr>trace := trace s @ d\<rparr>) = d"
  by (simp add: new_events_def)

lemma call_command_state:
  "call_command E cl c s = (r, s') \<Longrightarrow> s' = s\<lparr>trace := trace s @ [(cl, c)]\<rparr>"
  by (auto simp: call_command_def record_call_def)







section \<open>Stop and remove actions\<close>

lemma merge_kwargs_total: "\<exists>a s'. merge_kwargs c_kwargs kw s = (Inr a, s')"
  by (auto simp: merge_kwargs_def new_dict_def dict_update_at_def bindE_def returnE_def
      split: option.splits)

lemma run_action_teardown:
  assumes kind: "action = ACTION_STOP \<or> action = ACTION_REMOVE"
    and reg: "maps_get s map_name = Some mc"
    and mk: "merge_kwargs (map_of ak action) kw s = (Inr a_kwargs, s1)"
  shows "run_action E (Some ak) raise_on_error (action, map_name, container, kw) s =
     bindE (except_api_error E (client mc)
              (if action = ACTION_STOP then ''Failed to stop container '{0}': {1}''
               else ''Failed to remove container '{0}': {1}'') container raise_on_error
              (call_command E (client mc) (teardown_call action container (dict_heap s1 a_kwargs))))
       (\<lambda>_. returnE []) s1"
proof -
  have g: "get_client E map_name s = (Inr (client mc), s)"
    using reg by (rule get_client_Some)
  have body: "(\<lambda>s. call_command E (client mc) c s) = call_command E (client mc) c" for c
    by simp
  have ex: "except_api_error E cl t container raise_on_error (\<lambda>s. call_command E cl (f (dict_heap s a_kwargs)) s) s1
      = except_api_error E cl t container raise_on_error (call_command E cl (f (dict_heap s1 a_kwargs))) s1"
    for cl t f
    by (simp add: except_api_error_def)
  from kind show ?thesis
  proof
    assume "action = ACTION_STOP"
    then show ?thesis
      using ex [of "client mc" _ "\<lambda>k. Stop (PStr container) k"] mk
      by (simp add: run_action_def bindE_def g apply_kwargs_get_def returnE_def
          ACTIONS_CREATE_def ACTIONS_START_def ACTIONS_PREPARE_def ACTIONS_STOP_def
          teardown_call_def)
  next
    assume "action = ACTION_REMOVE"
    then show ?thesis
      using ex [of "client mc" _ "\<lambda>k. RemoveContainer (PStr container) k"] mk
      by (simp add: run_action_def bindE_def g apply_kwargs_get_def returnE_def
          ACTIONS_CREATE_def ACTIONS_START_def ACTIONS_PREPARE_def ACTIONS_STOP_def
          ACTIONS_REMOVE_def teardown_call_def)
  qed
qed

text \<open>
  C3. A stop or remove action whose engine call raises an \<open>APIError\<close>: with status code
  404 nothing is logged and the run goes on with the remaining actions; with any other
  status code the failure is logged at error level, and then the error is raised again,
  so that no further action runs, when \<open>raise_on_error\<close> is true, while the run goes on
  with the remaining actions when it is false.
\<close>

theorem stop_remove_error_handling:
  assumes "action = ACTION_STOP \<or> action = ACTION_REMOVE"
    and "maps_get s map_name = Some mc"
    and "merge_kwargs (map_of ak action) kw s = (Inr a_kwargs, s1)"
    and "r_command (engine E) (trace s1) (client mc)
           (teardown_call action container (dict_heap s1 a_kwargs)) = Some (APIError status_code explanation)"
  shows "(status_code = 404 \<longrightarrow>
           run_action_list E ((action, map_name, container, kw) # actions) (Some ak) raise_on_error s
           = run_action_list E actions (Some ak) raise_on_error
               (record_call (client mc) (teardown_call action container (dict_heap s1 a_kwargs)) s1))
       \<and> (status_code \<noteq> 404 \<and> raise_on_error \<longrightarrow>
           run_action_list E ((action, map_name, container, kw) # actions) (Some ak) raise_on_error s
           = (Inl (APIError status_code explanation),
              record_call (client mc)
                (PushLog (teardown_message E action container explanation) (Some logging_ERROR))
                (record_call (client mc) (teardown_call action container (dict_heap s1 a_kwargs)) s1)))
       \<and> (status_code \<noteq> 404 \<and> \<not> raise_on_error \<longrightarrow>
           run_action_list E ((action, map_name, container, kw) # actions) (Some ak) raise_on_error s
           = run_action_list E actions (Some ak) raise_on_error
               (record_call (client mc)
                  (PushLog (teardown_message E action container explanation) (Some logging_ERROR))
                  (record_call (client mc) (teardown_call action container (dict_heap s1 a_kwargs)) s1)))"
proof -
  note ra = run_action_teardown [OF assms(1,2,3), of E raise_on_error container]
  let ?c = "teardown_call action container (dict_heap s1 a_kwargs)"
  let ?s2 = "record_call (client mc) ?c s1"
  let ?s3 = "record_call (client mc)
               (PushLog (teardown_message E action container explanation) (Some logging_ERROR)) ?s2"
  have cc: "call_command E (client mc) ?c s1 = (Inl (APIError status_code explanation), ?s2)"
    using assms(4) by (simp add: call_command_def)
  have step: "run_action_list E ((action, map_name, container, kw) # actions) (Some ak) raise_on_error s
      = (case run_action E (Some ak) raise_on_error (action, map_name, container, kw) s of
           (Inl e, s') \<Rightarrow> (Inl e, s')
         | (Inr ys, s') \<Rightarrow> bindE (run_action_list E actions (Some ak) raise_on_error)
                             (\<lambda>yss. returnE (ys @ yss)) s')"
    by (simp add: bindE_def)
  have r404: "status_code = 404 \<Longrightarrow>
      run_action E (Some ak) raise_on_error (action, map_name, container, kw) s = (Inr [], ?s2)"
    unfolding ra by (simp add: bindE_def except_api_error_def cc returnE_def)
  have rraise: "status_code \<noteq> 404 \<Longrightarrow> raise_on_error \<Longrightarrow>
      run_action E (Some ak) raise_on_error (action, map_name, container, kw) s
        = (Inl (APIError status_code explanation), ?s3)"
    unfolding ra
    by (simp add: bindE_def except_api_error_def cc returnE_def raiseE_def push_log_def
        teardown_message_def)
  have rcont: "status_code \<noteq> 404 \<Longrightarrow> \<not> raise_on_error \<Longrightarrow>
      run_action E (Some ak) raise_on_error (action, map_name, container, kw) s = (Inr [], ?s3)"
    unfolding ra
    by (simp add: bindE_def except_api_error_def cc returnE_def raiseE_def push_log_def
        teardown_message_def)
  show ?thesis
  proof (intro conjI impI)
    assume "status_code = 404"
    from r404 [OF this] show "run_action_list E ((action, map_name, container, kw) # actions) (Some ak) raise_on_error s
           = run_action_list E actions (Some ak) raise_on_error ?s2"
      unfolding step by (simp add: bindE_returnE_right)
  next
    assume "status_code \<noteq> 404 \<and> raise_on_error"
    then show "run_action_list E ((action, map_name, container, kw) # actions) (Some ak) raise_on_error s
           = (Inl (APIError status_code explanation), ?s3)"
      unfolding step using rraise by simp
  next
    assume "status_code \<noteq> 404 \<and> \<not> raise_on_error"
    then show "run_action_list E ((action, map_name, container, kw) # actions) (Some ak) raise_on_error s
           = run_action_list E actions (Some ak) raise_on_error ?s3"
      unfolding step using rcont by (simp add: bindE_returnE_right)
  qed
qed

lemmas action_defs =
  run_action_def apply_kwargs_get_def merge_kwargs_def new_dict_def dict_update_at_def
  dict_update_def dict_pop_def kwargs_truthy_def except_api_error_def
  ACTIONS_CREATE_def ACTIONS_START_def ACTIONS_PREPARE_def ACTIONS_STOP_def ACTIONS_REMOVE_def
  teardown_call_def teardown_message_def sample_format_def logging_ERROR_def

theorem stop_remove_error_handling_witness:
  "maps_get sample_state (Some ''m'') = Some \<lparr>container_map = sample_map, client = 0\<rparr>
   \<and> merge_kwargs (map_of [(ACTION_STOP, [(''timeout'', PInt 5)])] ACTION_STOP) None sample_state
       = (Inr 0, sample_state\<lparr>dict_heap := (\<lambda>_. [])(0 := [(''timeout'', PInt 5)]), dict_next := 1\<rparr>)
   \<and> fst (run_action_list
        (sample_env [] (\<lambda>c. if c = Stop (PStr ''m.web'') [(''timeout'', PInt 5)]
                             then Some (APIError 500 ''busy'') else None))
        [(ACTION_STOP, Some ''m'', ''m.web'', None), (ACTION_STOP, Some ''m'', ''m.db'', None)]
        (Some [(ACTION_STOP, [(''timeout'', PInt 5)])]) True sample_state)
      = Inl (APIError 500 ''busy'')
   \<and> trace (snd (run_action_list
        (sample_env [] (\<lambda>c. if c = Stop (PStr ''m.web'') [(''timeout'', PInt 5)]
                             then Some (APIError 500 ''busy'') else None))
        [(ACTION_STOP, Some ''m'', ''m.web'', None), (ACTION_STOP, Some ''m'', ''m.db'', None)]
        (Some [(ACTION_STOP, [(''timeout'', PInt 5)])]) True sample_state))
      = [(0, Stop (PStr ''m.web'') [(''timeout'', PInt 5)]),
         (0, PushLog ''Failed to stop container '{0}': {1} m.web busy'' (Some 40))]
   \<and> fst (run_action_list
        (sample_env [] (\<lambda>c. if c = Stop (PStr ''m.web'') [(''timeout'', PInt 5)]
                             then Some (APIError 500 ''busy'') else None))
        [(ACTION_STOP, Some ''m'', ''m.web'', None), (ACTION_STOP, Some ''m'', ''m.db'', None)]
        (Some [(ACTION_STOP, [(''timeout'', PInt 5)])]) False sample_state)
      = Inr []
   \<and> trace (snd (run_action_list
        (sample_env [] (\<lambda>c. if c = Stop (PStr ''m.web'') [(''timeout'', PInt 5)]
                             then Some (APIError 500 ''busy'') else None))
        [(ACTION_STOP, Some ''m'', ''m.web'', None), (ACTION_STOP, Some ''m'', ''m.db'', None)]
        (Some [(ACTION_STOP, [(''timeout'', PInt 5)])]) False sample_state))
      = [(0, Stop (PStr ''m.web'') [(''timeout'', PInt 5)]),
         (0, PushLog ''Failed to stop container '{0}': {1} m.web busy'' (Some 40)),
         (0, Stop (PStr ''m.db'') [(''timeout'', PInt 5)])]"
proof -
  let ?E = "sample_env [] (\<lambda>c. if c = Stop (PStr ''m.web'') [(''timeout'', PInt 5)]
                             then Some (APIError 500 ''busy'') else None)"
  let ?ak = "[(ACTION_STOP, [(''timeout'', PInt 5)])]"
  let ?mc = "\<lparr>container_map = sample_map, client = 0\<rparr>"
  let ?s1 = "sample_state\<lparr>dict_heap := (\<lambda>_. [])(0 := [(''timeout'', PInt 5)]), dict_next := 1\<rparr>"
  let ?a2 = "(ACTION_STOP, Some ''m'', ''m.db'', None :: nat option)"
  have h1: "ACTION_STOP = ACTION_STOP \<or> ACTION_STOP = ACTION_REMOVE" by simp
  have h2: "maps_get sample_state (Some ''m'') = Some ?mc"
    by (simp add: maps_get_def sample_state_def)
  have h3: "merge_kwargs (map_of ?ak ACTION_STOP) None sample_state = (Inr 0, ?s1)"
    by (simp add: action_defs run_defs)
  have h4: "r_command (engine ?E) (trace ?s1) (client ?mc)
      (teardown_call ACTION_STOP ''m.web'' (dict_heap ?s1 0)) = Some (APIError 500 ''busy'')"
    by (simp add: action_defs run_defs)
  note t = stop_remove_error_handling [OF h1 h2 h3 h4]
  have ne: "(500::int) \<noteq> 404" by simp
  have r1: "run_action_list ?E [(ACTION_STOP, Some ''m'', ''m.web'', None), ?a2] (Some ?ak) True sample_state
      = (Inl (APIError 500 ''busy''),
         record_call (client ?mc)
           (PushLog (teardown_message ?E ACTION_STOP ''m.web'' ''busy'') (Some logging_ERROR))
           (record_call (client ?mc) (teardown_call ACTION_STOP ''m.web'' (dict_heap ?s1 0)) ?s1))"
    using t [of "[?a2]" True, THEN conjunct2, THEN conjunct1] ne by simp
  have r2: "run_action_list ?E [(ACTION_STOP, Some ''m'', ''m.web'', None), ?a2] (Some ?ak) False sample_state
      = run_action_list ?E [?a2] (Some ?ak) False
         (record_call (client ?mc)
           (PushLog (teardown_message ?E ACTION_STOP ''m.web'' ''busy'') (Some logging_ERROR))
           (record_call (client ?mc) (teardown_call ACTION_STOP ''m.web'' (dict_heap ?s1 0)) ?s1))"
    using t [of "[?a2]" False, THEN conjunct2, THEN conjunct2] ne by simp
  have e2: "run_action_list ?E [?a2] (Some ?ak) False
         (record_call (client ?mc)
           (PushLog (teardown_message ?E ACTION_STOP ''m.web'' ''busy'') (Some logging_ERROR))
           (record_call (client ?mc) (teardown_call ACTION_STOP ''m.web'' (dict_heap ?s1 0)) ?s1))
      = (Inr [], sample_state\<lparr>dict_heap := (\<lambda>_. [])(0 := [(''timeout'', PInt 5)], 1 := [(''timeout'', PInt 5)]),
            dict_next := 2,
            trace := [(0, Stop (PStr ''m.web'') [(''timeout'', PInt 5)]),
                      (0, PushLog ''Failed to stop container '{0}': {1} m.web busy'' (Some 40)),
                      (0, Stop (PStr ''m.db'') [(''timeout'', PInt 5)])]\<rparr>)"
    by (simp add: action_defs run_defs)
  show ?thesis
    unfolding r1 r2 e2 using h2 h3
    by (simp add: action_defs run_defs)
qed

section \<open>Merging keyword arguments\<close>

lemma map_of_dict_update_rev: "map_of (dict_update d other) = map_of d ++ map_of (rev other)"
proof -
  have "map_of (fold (\<lambda>(k, v) acc. AList.update k v acc) other d) = map_of d ++ map_of (rev other)"
    for d :: "('a \<times> 'b) list"
  proof (induction other arbitrary: d)
    case Nil
    show ?case by simp
  next
    case (Cons p ps)
    obtain k v where p: "p = (k, v)" by (cases p)
    have "map_of (fold (\<lambda>(k, v) acc. AList.update k v acc) (p # ps) d)
        = map_of (AList.update k v d) ++ map_of (rev ps)"
      using Cons.IH [of "AList.update k v d"] by (simp add: p)
    also have "\<dots> = map_of d ++ map_of (rev (p # ps))"
      by (rule ext) (simp add: p update_conv' map_add_def split: option.splits)
    finally show ?case .
  qed
  then show ?thesis by (simp add: dict_update_def)
qed

lemma map_of_rev_distinct: "distinct (map fst xs) \<Longrightarrow> map_of (rev xs) = map_of xs"
proof (induction xs)
  case Nil
  show ?case by simp
next
  case (Cons p xs)
  then have "fst p \<notin> dom (map_of xs)" by (simp add: dom_map_of_conv_image_fst)
  then show ?case using Cons
    by (cases p) (auto simp: map_add_def fun_eq_iff split: option.splits)
qed

text \<open>A dictionary has distinct keys; updating with one lets its items win.\<close>

lemma map_of_dict_update:
  "distinct (map fst other) \<Longrightarrow> map_of (dict_update d other) = map_of d ++ map_of other"
  by (simp add: map_of_dict_update_rev map_of_rev_distinct)

text \<open>
  With a non-empty override the merged dictionary is a new object: the override wins on
  every key it has, the other keys come from the action's dictionary, and no dictionary
  that existed before is changed.
\<close>

lemma merge_kwargs_override:
  assumes "c \<noteq> []" "distinct (map fst c)" "merge_kwargs (Some c) kw s = (r, s')"
  shows "r = Inr (dict_next s)
       \<and> map_of (dict_heap s' (dict_next s)) =
           map_of (case kw of None \<Rightarrow> [] | Some a \<Rightarrow> dict_heap s a) ++ map_of c
       \<and> (\<forall>a. a \<noteq> dict_next s \<longrightarrow> dict_heap s' a = dict_heap s a)"
  using assms
  by (auto simp: merge_kwargs_def new_dict_def dict_update_at_def bindE_def returnE_def
      kwargs_truthy_def map_of_dict_update split: option.splits)

text \<open>Without one, \<open>a_kwargs\<close> is the action's own dictionary whenever that is not empty.\<close>

lemma merge_kwargs_alias:
  assumes "c_kwargs = None \<or> c_kwargs = Some []" "dict_heap s a \<noteq> []"
  shows "merge_kwargs c_kwargs (Some a) s = (Inr a, s)"
  using assms by (auto simp: merge_kwargs_def kwargs_truthy_def returnE_def)

text \<open>
  C2. A create action whose \<open>kwargs\<close> is the dictionary at reference 0, run with an empty
  override for create actions (what \<open>create\<close> passes when called without extra keyword
  arguments): \<open>a_kwargs\<close> is then the action's own dictionary, and popping \<open>image\<close> removes
  the key from it. After the run the action's stored \<open>kwargs\<close> has lost its \<open>image\<close> key.
  The same happens to a prepare action.
\<close>

theorem run_action_list_mutates_action_kwargs:
  "dict_heap (sample_state\<lparr>dict_heap := (\<lambda>_. [])(0 := [(''image'', PStr ''busybox''), (''user'', PStr ''app'')]),
                dict_next := 1\<rparr>) 0
     = [(''image'', PStr ''busybox''), (''user'', PStr ''app'')]
   \<and> fst (run_action_list (sample_env [''busybox:latest''] (\<lambda>_. None))
        [(ACTION_CREATE, Some ''m'', ''m.web'', Some 0)] (Some [(ACTION_CREATE, [])]) False
        (sample_state\<lparr>dict_heap := (\<lambda>_. [])(0 := [(''image'', PStr ''busybox''), (''user'', PStr ''app'')]),
                dict_next := 1\<rparr>))
     = Inr [[(''Id'', PStr ''tmp'')]]
   \<and> dict_heap (snd (run_action_list (sample_env [''busybox:latest''] (\<lambda>_. None))
        [(ACTION_CREATE, Some ''m'', ''m.web'', Some 0)] (Some [(ACTION_CREATE, [])]) False
        (sample_state\<lparr>dict_heap := (\<lambda>_. [])(0 := [(''image'', PStr ''busybox''), (''user'', PStr ''app'')]),
                dict_next := 1\<rparr>))) 0
     = [(''user'', PStr ''app'')]
   \<and> dict_heap (snd (run_action_list (sample_env [''busybox:latest''] (\<lambda>_. None))
        [(ACTION_PREPARE, Some ''m'', ''m.web'', Some 0)] (Some [(ACTION_CREATE, [])]) False
        (sample_state\<lparr>dict_heap := (\<lambda>_. [])(0 := [(''image'', PStr ''busybox''), (''path'', PStr ''/data''),
                                                   (''user'', PNone), (''permissions'', PNone)]),
                dict_next := 1\<rparr>))) 0
     = [(''path'', PStr ''/data''), (''user'', PNone), (''permissions'', PNone)]"
  by (simp add: action_defs run_defs bind_adjust_args_def adjust_permissions_def)

section \<open>The policy object\<close>

lemma keeps_returnE: "keeps_policy (returnE x)"
  by (simp add: keeps_policy_def returnE_def)

lemma keeps_raiseE: "keeps_policy (raiseE e)"
  by (simp add: keeps_policy_def raiseE_def)

lemma keeps_bindE:
  assumes "keeps_policy f" "\<And>x. keeps_policy (g x)"
  shows "keeps_policy (bindE f g)"
  unfolding keeps_policy_def
proof
  fix s
  obtain r s1 where f: "f s = (r, s1)" by (cases "f s") auto
  from assms(1) f have 1: "self_policy s1 = self_policy s \<and> policy_next s1 = policy_next s
      \<and> policy_heap s1 = policy_heap s"
    unfolding keeps_policy_def by (metis snd_conv)
  show "self_policy (snd (bindE f g s)) = self_policy s
      \<and> policy_next (snd (bindE f g s)) = policy_next s
      \<and> policy_heap (snd (bindE f g s)) = policy_heap s"
  proof (cases r)
    case (Inl e)
    then show ?thesis using f 1 by (simp add: bindE_def)
  next
    case (Inr x)
    from assms(2) [of x] have "self_policy (snd (g x s1)) = self_policy s1
        \<and> policy_next (snd (g x s1)) = policy_next s1 \<and> policy_heap (snd (g x s1)) = policy_heap s1"
      unfolding keeps_policy_def by blast
    then show ?thesis using f 1 Inr by (simp add: bindE_def)
  qed
qed

lemma keeps_finallyE:
  assumes "keeps_policy body" "keeps_policy fin"
  shows "keeps_policy (finallyE body fin)"
  unfolding keeps_policy_def
proof
  fix s
  obtain r s1 where b: "body s = (r, s1)" by (cases "body s") auto
  obtain r' s2 where f: "fin s1 = (r', s2)" by (cases "fin s1") auto
  from assms(1) b have 1: "self_policy s1 = self_policy s \<and> policy_next s1 = policy_next s
      \<and> policy_heap s1 = policy_heap s"
    unfolding keeps_policy_def by (metis snd_conv)
  from assms(2) f have 2: "self_policy s2 = self_policy s1 \<and> policy_next s2 = policy_next s1
      \<and> policy_heap s2 = policy_heap s1"
    unfolding keeps_policy_def by (metis snd_conv)
  have "snd (finallyE body fin s) = s2"
    using b f by (cases r') (simp_all add: finallyE_def)
  then show "self_policy (snd (finallyE body fin s)) = self_policy s
      \<and> policy_next (snd (finallyE body fin s)) = policy_next s
      \<and> policy_heap (snd (finallyE body fin s)) = policy_heap s"
    using 1 2 by simp
qed

lemma keeps_call_command: "keeps_policy (call_command E cl c)"
  by (simp add: keeps_policy_def call_command_def record_call_def)

lemma keeps_call_create_container: "keeps_policy (call_create_container E cl img nm kw)"
  by (simp add: keeps_policy_def call_create_container_def record_call_def)

lemma keeps_read: "(\<And>x. keeps_policy (f x)) \<Longrightarrow> keeps_policy (\<lambda>s. f (h s) s)"
  by (simp add: keeps_policy_def)

lemma keeps_call_command_read: "keeps_policy (\<lambda>s. call_command E cl (c s) s)"
  by (rule keeps_read [of "\<lambda>x. call_command E cl x" c]) (rule keeps_call_command)

lemma keeps_call_create_container_read:
  "keeps_policy (\<lambda>s. call_create_container E cl img nm (kw s) s)"
  by (rule keeps_read [of "\<lambda>x. call_create_container E cl img nm x" kw])
     (rule keeps_call_create_container)

lemma keeps_if: "keeps_policy f \<Longrightarrow> keeps_policy g \<Longrightarrow> keeps_policy (if b then f else g)"
  by simp

lemma keeps_call_get_image_tags: "keeps_policy (call_get_image_tags E cl)"
  by (simp add: keeps_policy_def call_get_image_tags_def record_call_def)

lemma keeps_call_containers: "keeps_policy (call_containers E cl)"
  by (simp add: keeps_policy_def call_containers_def record_call_def)

lemma keeps_push_log: "keeps_policy (push_log cl msg level)"
  by (simp add: keeps_policy_def push_log_def record_call_def)

lemma keeps_get_client: "keeps_policy (get_client E map_name)"
  by (simp add: keeps_policy_def get_client_def returnE_def raiseE_def split: option.splits)

lemma keeps_get_image_tags: "keeps_policy (get_image_tags E map_name force)"
proof -
  have st: "keeps_policy (\<lambda>s'. (Inr tags, store_image_tags map_name tags s'))" for tags :: "string list"
    by (simp add: keeps_policy_def store_image_tags_def split: option.splits)
  have q: "keeps_policy (bindE (get_client E map_name) (\<lambda>cl.
            bindE (call_get_image_tags E cl) (\<lambda>tags s'.
              (Inr tags, store_image_tags map_name tags s'))))"
    by (intro keeps_bindE keeps_get_client keeps_call_get_image_tags st)
  show ?thesis
    unfolding keeps_policy_def
  proof
    fix s
    show "self_policy (snd (get_image_tags E map_name force s)) = self_policy s \<and>
         policy_next (snd (get_image_tags E map_name force s)) = policy_next s \<and>
         policy_heap (snd (get_image_tags E map_name force s)) = policy_heap s"
      using q [unfolded keeps_policy_def, rule_format, of s]
      by (simp add: get_image_tags_def returnE_def split: option.splits)
  qed
qed

lemma keeps_check_image: "keeps_policy (check_image E cl map_images img)"
proof (cases img)
  case (PStr image_name)
  obtain b sep tag where p: "partition_sep CHR '':'' image_name = (b, sep, tag)"
    by (cases "partition_sep CHR '':'' image_name") auto
  show ?thesis
    unfolding check_image_def PStr
    by (simp add: p Let_def keeps_bindE keeps_call_command keeps_returnE)
qed (simp_all add: check_image_def keeps_raiseE)

lemma keeps_check_images: "keeps_policy (check_images E cl map_images imgs)"
  by (induction imgs) (simp_all add: keeps_returnE keeps_bindE keeps_check_image)

lemma keeps_ensure_images: "keeps_policy (ensure_images E map_name images)"
  unfolding ensure_images_def
  by (intro keeps_bindE keeps_get_client keeps_get_image_tags keeps_check_images keeps_if
      keeps_returnE)

lemma keeps_run_and_dispose: "keeps_policy (run_and_dispose E cl img entrypoint command usr volumes_from)"
proof -
  have "keeps_policy (case map_of r ''Id'' of
         None \<Rightarrow> raiseE (KeyError ''Id'')
       | Some tmp_container \<Rightarrow>
           finallyE
             (bindE (call_command E cl (Start tmp_container [(''volumes_from'', volumes_from)])) (\<lambda>_.
                bindE (call_command E cl (Wait tmp_container)) (\<lambda>_.
                  call_command E cl (PushContainerLogs tmp_container))))
             (call_command E cl (RemoveContainer tmp_container [])))" for r
    by (cases "map_of r ''Id''")
       (simp_all add: keeps_raiseE keeps_finallyE keeps_bindE keeps_call_command)
  then show ?thesis
    unfolding run_and_dispose_def
    by (intro keeps_bindE keeps_call_create_container)
qed

lemma keeps_adjust_permissions:
  "keeps_policy (adjust_permissions E cl img container_name path usr permissions)"
  unfolding adjust_permissions_def
  by (intro keeps_if keeps_bindE keeps_returnE keeps_push_log keeps_run_and_dispose)

lemma keeps_new_dict: "keeps_policy (new_dict d)"
  by (simp add: keeps_policy_def new_dict_def)

lemma keeps_dict_update_at: "keeps_policy (dict_update_at a other)"
  by (simp add: keeps_policy_def dict_update_at_def)

lemma keeps_dict_pop: "keeps_policy (dict_pop a key)"
  by (simp add: keeps_policy_def dict_pop_def raiseE_def split: option.splits)

lemma keeps_apply_kwargs_get: "keeps_policy (apply_kwargs_get apply_kwargs a)"
  by (cases apply_kwargs) (simp_all add: apply_kwargs_get_def keeps_raiseE keeps_returnE)

lemma keeps_merge_kwargs: "keeps_policy (merge_kwargs c_kwargs kw)"
  by (auto simp: keeps_policy_def merge_kwargs_def new_dict_def dict_update_at_def bindE_def
      returnE_def split: option.splits)

lemma keeps_bind_adjust_args: "keeps_policy (bind_adjust_args kw)"
  by (simp add: keeps_policy_def bind_adjust_args_def returnE_def raiseE_def split: option.splits)

lemma keeps_except_api_error:
  assumes "keeps_policy body"
  shows "keeps_policy (except_api_error E cl template container raise_on_error body)"
  unfolding keeps_policy_def
proof
  fix s
  obtain r s1 where b: "body s = (r, s1)" by (cases "body s") auto
  from assms b have 1: "self_policy s1 = self_policy s \<and> policy_next s1 = policy_next s
      \<and> policy_heap s1 = policy_heap s"
    unfolding keeps_policy_def by (metis snd_conv)
  have "self_policy (snd (except_api_error E cl template container raise_on_error body s)) = self_policy s1
      \<and> policy_next (snd (except_api_error E cl template container raise_on_error body s)) = policy_next s1
      \<and> policy_heap (snd (except_api_error E cl template container raise_on_error body s)) = policy_heap s1"
    using b
    by (auto simp: except_api_error_def bindE_def push_log_def record_call_def raiseE_def returnE_def
        split: sum.splits exn.splits)
  with 1 show "self_policy (snd (except_api_error E cl template container raise_on_error body s)) = self_policy s
      \<and> policy_next (snd (except_api_error E cl template container raise_on_error body s)) = policy_next s
      \<and> policy_heap (snd (except_api_error E cl template container raise_on_error body s)) = policy_heap s"
    by simp
qed

lemma keeps_run_action: "keeps_policy (run_action E apply_kwargs raise_on_error act)"
proof -
  obtain action map_name container kw where act: "act = (action, map_name, container, kw)"
    by (cases act) auto
  have adj: "keeps_policy (case p of (path, usr, permissions) \<Rightarrow>
      bindE (adjust_permissions E cl img container path usr permissions) (\<lambda>_. returnE []))"
    for p cl img
    by (cases p) (simp add: keeps_bindE keeps_adjust_permissions keeps_returnE)
  have baa: "keeps_policy (\<lambda>s. bind_adjust_args (dict_heap s a) s)" for a
    by (rule keeps_read [of bind_adjust_args]) (rule keeps_bind_adjust_args)
  show ?thesis
    unfolding run_action_def act prod.case
    by (intro keeps_bindE keeps_get_client keeps_apply_kwargs_get keeps_merge_kwargs keeps_if
        keeps_dict_pop keeps_ensure_images keeps_call_create_container_read keeps_returnE
        keeps_call_command keeps_call_command_read baa adj keeps_except_api_error keeps_raiseE)
qed

lemma keeps_run_action_list: "keeps_policy (run_action_list E actions apply_kwargs raise_on_error)"
  by (induction actions) (simp_all add: keeps_returnE keeps_bindE keeps_run_action)

lemma keeps_wait: "keeps_policy (wait E container instance map_name do_log)"
proof -
  have "keeps_policy (\<lambda>s. (bindE (call_command E cl (Wait (PStr (h s)))) (\<lambda>_.
             if do_log then call_command E cl (PushContainerLogs (PStr (h s)))
             else returnE ())) s)" for cl and h :: "state \<Rightarrow> string"
    by (rule keeps_read [of "\<lambda>x. bindE (call_command E cl (Wait (PStr x))) (\<lambda>_.
             if do_log then call_command E cl (PushContainerLogs (PStr x))
             else returnE ())" h])
       (intro keeps_bindE keeps_call_command keeps_if keeps_returnE)
  then show ?thesis
    unfolding wait_def Let_def by (intro keeps_bindE keeps_get_client)
qed

lemma keeps_wait_and_remove: "keeps_policy (wait_and_remove E container instance map_name do_log kw)"
proof -
  have "keeps_policy (\<lambda>s. (bindE (wait E container instance map_name do_log) (\<lambda>_.
             call_command E cl (RemoveContainer (PStr (h s)) kw))) s)" for cl and h :: "state \<Rightarrow> string"
    by (rule keeps_read [of "\<lambda>x. bindE (wait E container instance map_name do_log) (\<lambda>_.
             call_command E cl (RemoveContainer (PStr x) kw))" h])
       (intro keeps_bindE keeps_wait keeps_call_command)
  then show ?thesis
    unfolding wait_and_remove_def Let_def by (intro keeps_bindE keeps_get_client)
qed

lemma keeps_extract_status: "keeps_policy (extract_status E mcs)"
  by (induction mcs) (simp_all add: keeps_returnE keeps_bindE keeps_call_containers)

lemma keeps_get_status: "keeps_policy (get_status E)"
proof -
  have "keeps_policy (\<lambda>s. bindE (extract_status E (map snd (self_maps s)))
      (\<lambda>ps. returnE (dict_of_pairs ps)) s)"
    by (rule keeps_read [of "\<lambda>x. bindE (extract_status E x) (\<lambda>ps. returnE (dict_of_pairs ps))"
          "\<lambda>s. map snd (self_maps s)"])
       (intro keeps_bindE keeps_extract_status keeps_returnE)
  then show ?thesis by (simp add: get_status_def [abs_def])
qed

lemma keeps_policyD:
  assumes "keeps_policy f" "f s = (r, s')"
  shows "self_policy s' = self_policy s" "policy_next s' = policy_next s" "policy_heap s' = policy_heap s"
  using assms unfolding keeps_policy_def by (metis snd_conv)+

lemma extract_status_trace:
  "extract_status E mcs s = (Inr ps, s') \<Longrightarrow>
     trace s' = trace s @ map (\<lambda>mc. (client mc, Containers)) mcs"
proof (induction mcs arbitrary: s ps s')
  case Nil
  then show ?case by (simp add: returnE_def)
next
  case (Cons mc mcs)
  from Cons.prems obtain cs where
    c: "r_containers (engine E) (trace s) (client mc) = Inr cs"
    by (auto simp: bindE_def call_containers_def split: sum.splits)
  let ?s1 = "record_call (client mc) Containers s"
  from Cons.prems c obtain rest where r: "extract_status E mcs ?s1 = (Inr rest, s')"
    by (auto simp: bindE_def call_containers_def returnE_def split: sum.splits prod.splits)
  from Cons.IH [OF r] show ?case by (simp add: record_call_def)
qed

lemma get_status_trace:
  "get_status E s = (Inr st, s') \<Longrightarrow>
     trace s' = trace s @ map (\<lambda>mc. (client mc, Containers)) (map snd (self_maps s))"
  using extract_status_trace [of E "map snd (self_maps s)" s _ s']
  by (auto simp: get_status_def bindE_def returnE_def split: sum.splits prod.splits)

lemma get_policy_unfold:
  "get_policy E s =
     (case get_status E (if self_policy s = None then new_policy s else s) of
        (Inl e, s1) \<Rightarrow> (Inl e, s1)
      | (Inr st, s1) \<Rightarrow>
          (case self_policy s1 of
             None \<Rightarrow> (Inl (AttributeError ''status''), s1)
           | Some a \<Rightarrow> (Inr a, set_status a st s1)))"
  by (simp add: get_policy_def bindE_def raiseE_def split: prod.splits sum.splits option.splits)

lemma get_policy_first:
  assumes "self_policy s = None" "get_policy E s = (r, s')"
  shows "self_policy s' = Some (policy_next s)" "policy_next s' = Suc (policy_next s)"
    "policy_maps (policy_heap s' (policy_next s)) = map (\<lambda>mc. container_map mc) (map snd (self_maps s))"
    "\<forall>a. r = Inr a \<longrightarrow> a = policy_next s"
proof -
  obtain r1 s1 where g: "get_status E (new_policy s) = (r1, s1)"
    by (cases "get_status E (new_policy s)") auto
  note k = keeps_policyD [OF keeps_get_status g]
  have n: "self_policy (new_policy s) = Some (policy_next s)"
    "policy_next (new_policy s) = Suc (policy_next s)"
    "policy_maps (policy_heap (new_policy s) (policy_next s)) = map (\<lambda>mc. container_map mc) (map snd (self_maps s))"
    by (simp_all add: new_policy_def)
  have "self_policy s' = Some (policy_next s) \<and> policy_next s' = Suc (policy_next s)
      \<and> policy_maps (policy_heap s' (policy_next s)) = map (\<lambda>mc. container_map mc) (map snd (self_maps s))
      \<and> (\<forall>a. r = Inr a \<longrightarrow> a = policy_next s)"
    using assms g k n
    by (cases r1) (auto simp: get_policy_unfold set_status_def)
  then show "self_policy s' = Some (policy_next s)" "policy_next s' = Suc (policy_next s)"
    "policy_maps (policy_heap s' (policy_next s)) = map (\<lambda>mc. container_map mc) (map snd (self_maps s))"
    "\<forall>a. r = Inr a \<longrightarrow> a = policy_next s"
    by blast+
qed

lemma get_policy_again:
  assumes "self_policy s = Some a0" "get_policy E s = (r, s')"
  shows "self_policy s' = Some a0" "policy_next s' = policy_next s"
    "\<forall>b. policy_maps (policy_heap s' b) = policy_maps (policy_heap s b)"
    "\<forall>b. b \<noteq> a0 \<longrightarrow> policy_heap s' b = policy_heap s b"
    "\<forall>a. r = Inr a \<longrightarrow> a = a0"
proof -
  obtain r1 s1 where g: "get_status E s = (r1, s1)"
    by (cases "get_status E s") auto
  note k = keeps_policyD [OF keeps_get_status g]
  have "self_policy s' = Some a0 \<and> policy_next s' = policy_next s
      \<and> (\<forall>b. policy_maps (policy_heap s' b) = policy_maps (policy_heap s b))
      \<and> (\<forall>b. b \<noteq> a0 \<longrightarrow> policy_heap s' b = policy_heap s b)
      \<and> (\<forall>a. r = Inr a \<longrightarrow> a = a0)"
    using assms g k
    by (cases r1) (auto simp: get_policy_unfold set_status_def)
  then show "self_policy s' = Some a0" "policy_next s' = policy_next s"
    "\<forall>b. policy_maps (policy_heap s' b) = policy_maps (policy_heap s b)"
    "\<forall>b. b \<noteq> a0 \<longrightarrow> policy_heap s' b = policy_heap s b"
    "\<forall>a. r = Inr a \<longrightarrow> a = a0"
    by blast+
qed

lemma get_policy_status:
  assumes "get_policy E s = (Inr a, s')"
  shows "\<exists>st s1. get_status E (if self_policy s = None then new_policy s else s) = (Inr st, s1)
           \<and> self_policy s' = Some a
           \<and> status (policy_heap s' a) = Some st
           \<and> trace s' = trace s @ map (\<lambda>mc. (client mc, Containers)) (map snd (self_maps s))"
proof -
  let ?s0 = "if self_policy s = None then new_policy s else s"
  obtain r1 s1 where g: "get_status E ?s0 = (r1, s1)"
    by (cases "get_status E ?s0") auto
  from assms g obtain st where st: "r1 = Inr st" and sp: "self_policy s1 = Some a"
    and s': "s' = set_status a st s1"
    by (auto simp: get_policy_unfold split: sum.splits option.splits)
  have t0: "trace ?s0 = trace s" "self_maps ?s0 = self_maps s" by (simp_all add: new_policy_def)
  have "trace s1 = trace s @ map (\<lambda>mc. (client mc, Containers)) (map snd (self_maps s))"
    using get_status_trace [OF g [unfolded st]] t0 by simp
  then show ?thesis using g st sp s' by (auto simp: set_status_def)
qed

lemma perform_keeps:
  assumes "opn \<noteq> GetPolicy"
  shows "self_policy (perform E opn s) = self_policy s \<and> policy_next (perform E opn s) = policy_next s
       \<and> policy_heap (perform E opn s) = policy_heap s"
proof (cases opn)
  case GetPolicy
  with assms show ?thesis by simp
next
  case (RunActionList actions apply_kwargs raise_on_error)
  then show ?thesis
    using keeps_run_action_list [of E actions apply_kwargs raise_on_error]
    by (simp add: perform_def keeps_policy_def)
next
  case (WaitFor container inst map_name do_log)
  then show ?thesis
    using keeps_wait [of E container inst map_name do_log]
    by (simp add: perform_def keeps_policy_def)
next
  case (WaitAndRemove container inst map_name do_log kw)
  then show ?thesis
    using keeps_wait_and_remove [of E container inst map_name do_log kw]
    by (simp add: perform_def keeps_policy_def)
next
  case RefreshNames
  then show ?thesis by (simp add: perform_def refresh_names_def)
next
  case (SetDefaultMap v)
  then show ?thesis by (simp add: perform_def)
qed

lemma perform_all_constructed:
  assumes "self_policy s = Some a0"
  shows "self_policy (perform_all E ops s) = Some a0
       \<and> policy_next (perform_all E ops s) = policy_next s
       \<and> (\<forall>a. Inr a \<in> set (policy_results E ops s) \<longrightarrow> a = a0)"
  using assms
proof (induction ops arbitrary: s)
  case Nil
  then show ?case by simp
next
  case (Cons opn ops)
  show ?case
  proof (cases "opn = GetPolicy")
    case True
    obtain r s1 where g: "get_policy E s = (r, s1)" by (cases "get_policy E s") auto
    note a = get_policy_again [OF Cons.prems g]
    have p: "perform E opn s = s1" using True g by (simp add: perform_def)
    from Cons.IH [OF a(1)] a(2) a(5) show ?thesis
      using True g p by auto
  next
    case False
    note k = perform_keeps [OF False, of E s]
    from k Cons.prems have "self_policy (perform E opn s) = Some a0" by simp
    from Cons.IH [OF this] k False show ?thesis
      by (cases opn) auto
  qed
qed

lemma perform_all_fresh:
  assumes "self_policy s = None"
  shows "policy_next (perform_all E ops s) \<le> Suc (policy_next s)
       \<and> (\<forall>a. Inr a \<in> set (policy_results E ops s) \<longrightarrow> a = policy_next s)"
  using assms
proof (induction ops arbitrary: s)
  case Nil
  then show ?case by simp
next
  case (Cons opn ops)
  show ?case
  proof (cases "opn = GetPolicy")
    case True
    obtain r s1 where g: "get_policy E s = (r, s1)" by (cases "get_policy E s") auto
    note a = get_policy_first [OF Cons.prems g]
    have p: "perform E opn s = s1" using True g by (simp add: perform_def)
    from perform_all_constructed [OF a(1), of E ops] a(2) a(4) show ?thesis
      using True g p by auto
  next
    case False
    note k = perform_keeps [OF False, of E s]
    from k Cons.prems have "self_policy (perform E opn s) = None" by simp
    from Cons.IH [OF this] k False show ?thesis
      by (cases opn) auto
  qed
qed

text \<open>
  C8. A client object whose policy field is still unset constructs a policy object on
  its first \<open>get_policy\<close> call, from the container maps of all registered maps; a client
  object that has one constructs none. Hence over any sequence of operations at most one
  policy object is constructed, and every \<open>get_policy\<close> call that returns, returns the
  reference of that one object. Every returning call has queried the containers of
  every registered map anew and has assigned the resulting mapping to the \<open>status\<close>
  attribute of the object it returns.
\<close>

theorem get_policy_single_instance:
  "(\<forall>r s'. self_policy s = None \<and> get_policy E s = (r, s') \<longrightarrow>
       self_policy s' = Some (policy_next s) \<and> policy_next s' = Suc (policy_next s)
       \<and> policy_maps (policy_heap s' (policy_next s))
           = map (\<lambda>mc. container_map mc) (map snd (self_maps s)))
   \<and> (\<forall>a0 r s'. self_policy s = Some a0 \<and> get_policy E s = (r, s') \<longrightarrow>
       self_policy s' = Some a0 \<and> policy_next s' = policy_next s
       \<and> (\<forall>a. r = Inr a \<longrightarrow> a = a0))
   \<and> (\<forall>a s'. get_policy E s = (Inr a, s') \<longrightarrow>
       (\<exists>st s1. get_status E (if self_policy s = None then new_policy s else s) = (Inr st, s1)
          \<and> self_policy s' = Some a
          \<and> status (policy_heap s' a) = Some st
          \<and> trace s' = trace s @ map (\<lambda>mc. (client mc, Containers)) (map snd (self_maps s))))
   \<and> (\<forall>ops. self_policy s = None \<longrightarrow>
       policy_next (perform_all E ops s) \<le> Suc (policy_next s)
       \<and> (\<forall>a. Inr a \<in> set (policy_results E ops s) \<longrightarrow> a = policy_next s))
   \<and> (\<forall>ops a0. self_policy s = Some a0 \<longrightarrow>
       policy_next (perform_all E ops s) = policy_next s
       \<and> (\<forall>a. Inr a \<in> set (policy_results E ops s) \<longrightarrow> a = a0))"
proof (intro conjI allI impI)
  fix r s' assume a: "self_policy s = None \<and> get_policy E s = (r, s')"
  then have 1: "self_policy s = None" and 2: "get_policy E s = (r, s')" by blast+
  from get_policy_first [OF 1 2]
  show "self_policy s' = Some (policy_next s)" "policy_next s' = Suc (policy_next s)"
    "policy_maps (policy_heap s' (policy_next s)) = map (\<lambda>mc. container_map mc) (map snd (self_maps s))"
    by blast+
next
  fix a0 r s' assume a: "self_policy s = Some a0 \<and> get_policy E s = (r, s')"
  then have 1: "self_policy s = Some a0" and 2: "get_policy E s = (r, s')" by blast+
  from get_policy_again [OF 1 2]
  show "self_policy s' = Some a0" "policy_next s' = policy_next s" by blast+
  fix a assume "r = Inr a"
  with get_policy_again(5) [OF 1 2] show "a = a0" by blast
next
  fix a s' assume "get_policy E s = (Inr a, s')"
  from get_policy_status [OF this]
  show "\<exists>st s1. get_status E (if self_policy s = None then new_policy s else s) = (Inr st, s1)
          \<and> self_policy s' = Some a
          \<and> status (policy_heap s' a) = Some st
          \<and> trace s' = trace s @ map (\<lambda>mc. (client mc, Containers)) (map snd (self_maps s))" .
next
  fix ops assume n: "self_policy s = None"
  from perform_all_fresh [OF n, of E ops]
  show "policy_next (perform_all E ops s) \<le> Suc (policy_next s)" by blast
  fix a assume "Inr a \<in> set (policy_results E ops s)"
  with perform_all_fresh [OF n, of E ops] show "a = policy_next s" by blast
next
  fix ops a0 assume n: "self_policy s = Some a0"
  from perform_all_constructed [OF n, of E ops]
  show "policy_next (perform_all E ops s) = policy_next s" by blast
  fix a assume "Inr a \<in> set (policy_results E ops s)"
  with perform_all_constructed [OF n, of E ops] show "a = a0" by blast
qed

lemma sample_status:
  assumes "self_maps s = [(''m'', \<lparr>container_map = sample_map, client = 0\<rparr>)]"
  shows "get_status (sample_env [] (\<lambda>_. None)) s =
     (Inr [(''m.web'', PBool True), (''m.db'', PInt 1)], record_call 0 Containers s)"
proof -
  have 1: "status_value ''Up 2 hours'' = PBool True"
    by (simp add: status_value_def prefix_def)
  have "exited_match (''Exited ('' @ ''1'' @ '')'' @ '' 3 days ago'') = Some ''1''"
    by (rule exited_match_digits) (simp_all add: is_digit_def)
  then have 2: "status_value ''Exited (1) 3 days ago'' = PInt 1"
    by (simp add: status_value_def prefix_def int_of_digits_def)
  show ?thesis
    by (simp add: assms get_status_def bindE_def returnE_def call_containers_def sample_env_def
        sample_engine_def container_status_def 1 2 dict_of_pairs_def dict_update_def record_call_def)
qed


theorem get_policy_single_instance_witness:
  "self_policy sample_state = None
   \<and> fst (get_policy (sample_env [] (\<lambda>_. None)) sample_state) = Inr 0
   \<and> status (policy_heap (snd (get_policy (sample_env [] (\<lambda>_. None)) sample_state)) 0)
       = Some [(''m.web'', PBool True), (''m.db'', PInt 1)]
   \<and> policy_results (sample_env [] (\<lambda>_. None)) [GetPolicy, RefreshNames, GetPolicy] sample_state
       = [Inr 0, Inr 0]
   \<and> policy_next (perform_all (sample_env [] (\<lambda>_. None)) [GetPolicy, RefreshNames, GetPolicy] sample_state)
       \<le> Suc (policy_next sample_state)"
proof -
  let ?E = "sample_env [] (\<lambda>_. None)"
  let ?st = "[(''m.web'', PBool True), (''m.db'', PInt 1)]"
  have n: "self_policy sample_state = None" by (simp add: sample_state_def empty_state_def)
  have m: "self_maps (new_policy sample_state) = [(''m'', \<lparr>container_map = sample_map, client = 0\<rparr>)]"
    by (simp add: new_policy_def sample_state_def)
  have g: "get_policy ?E sample_state =
      (Inr 0, set_status 0 ?st (record_call 0 Containers (new_policy sample_state)))"
  proof -
    have sp: "self_policy (record_call 0 Containers (new_policy sample_state)) = Some 0"
      by (simp add: record_call_def new_policy_def sample_state_def empty_state_def)
    show ?thesis
      by (simp add: get_policy_def n bindE_def sample_status [OF m] sp)
  qed
  have st: "status (policy_heap (snd (get_policy ?E sample_state)) 0) = Some ?st"
    unfolding g by (simp add: set_status_def record_call_def new_policy_def)
  let ?s1 = "set_status 0 ?st (record_call 0 Containers (new_policy sample_state))"
  have m1: "self_maps (refresh_names ?s1) = [(''m'', \<lparr>container_map = sample_map, client = 0\<rparr>)]"
    by (simp add: refresh_names_def set_status_def record_call_def new_policy_def sample_state_def)
  have p1: "self_policy (refresh_names ?s1) = Some 0"
    by (simp add: refresh_names_def set_status_def record_call_def new_policy_def sample_state_def
        empty_state_def)
  have g2: "fst (get_policy ?E (refresh_names ?s1)) = Inr 0"
  proof -
    have sp: "self_policy (record_call 0 Containers (refresh_names ?s1)) = Some 0"
      using p1 by (simp add: record_call_def)
    show ?thesis
      by (simp add: get_policy_def p1 bindE_def sample_status [OF m1] sp)
  qed
  have res: "policy_results ?E [GetPolicy, RefreshNames, GetPolicy] sample_state = [Inr 0, Inr 0]"
    by (simp add: perform_def g g2)
  note t = get_policy_single_instance [of sample_state ?E]
  from t [THEN conjunct2, THEN conjunct2, THEN conjunct2, THEN conjunct1, rule_format, OF n]
  have "policy_next (perform_all ?E [GetPolicy, RefreshNames, GetPolicy] sample_state)
      \<le> Suc (policy_next sample_state)" by blast
  then show ?thesis using n g st res by simp
qed

end
